theory Spec2Isabelle
  imports Complex_Main "HOL-Library.Sublist" "HOL-Library.List_Lexorder" "HOL-Library.Multiset"
begin

section \<open>Python strings\<close>

text \<open>
  A Python \<open>str\<close> is a sequence of Unicode code points, and \<open>len\<close> counts code points.
  The scripts handle Japanese text, so a string is modelled as the list of its code points,
  each a natural number. ASCII literals of the source are written with \<open>lit\<close>.
\<close>

type_synonym pystr = "nat list"

definition lit :: "string \<Rightarrow> pystr" where
  "lit s = map of_char s"

text \<open>The line feed and carriage return characters, \<open>"\n"\<close> and \<open>"\r"\<close>.\<close>

definition LF :: nat where
  "LF = 10"

definition CR :: nat where
  "CR = 13"

text \<open>
  \<open>str.isspace\<close> for one character, which is what \<open>str.strip()\<close> without argument removes:
  the code points that CPython's \<open>_PyUnicode_IsWhitespace\<close> accepts.
\<close>

definition is_space :: "nat \<Rightarrow> bool" where
  "is_space c \<longleftrightarrow>
     (9 \<le> c \<and> c \<le> 13) \<or> (28 \<le> c \<and> c \<le> 32) \<or> c = 133 \<or> c = 160 \<or> c = 5760 \<or>
     (8192 \<le> c \<and> c \<le> 8202) \<or> c = 8232 \<or> c = 8233 \<or> c = 8239 \<or> c = 8287 \<or> c = 12288"

text \<open>\<open>s.strip()\<close>: leading and trailing whitespace removed.\<close>

definition strip :: "pystr \<Rightarrow> pystr" where
  "strip s = rev (dropWhile is_space (rev (dropWhile is_space s)))"

text \<open>
  \<open>s.replace(old, new)\<close>: every non-overlapping occurrence of \<open>old\<close>, scanning from the
  left, is replaced. With an empty \<open>old\<close> Python inserts \<open>new\<close> before every character
  and at the end.
\<close>

function replace :: "pystr \<Rightarrow> pystr \<Rightarrow> pystr \<Rightarrow> pystr" where
  "replace old new s =
     (if old = [] then new @ concat (map (\<lambda>c. c # new) s)
      else if s = [] then []
      else if prefix old s then new @ replace old new (drop (length old) s)
      else hd s # replace old new (tl s))"
  by pat_completeness auto
termination
  by (relation "measure (\<lambda>(old, new, s). length s)") auto

text \<open>
  \<open>s.split(sep)\<close> with an explicit separator: the pieces between the non-overlapping
  occurrences of \<open>sep\<close>, scanning from the left; always at least one piece. Python raises
  \<open>ValueError\<close> for an empty separator; both call sites pass a literal non-empty one, and
  the model returns no piece there.
\<close>

function split :: "pystr \<Rightarrow> pystr \<Rightarrow> pystr list" where
  "split sep s =
     (if sep = [] then []
      else if s = [] then [[]]
      else if prefix sep s then [] # split sep (drop (length sep) s)
      else (case split sep (tl s) of
              [] \<Rightarrow> [[hd s]]
            | w # ws \<Rightarrow> (hd s # w) # ws))"
  by pat_completeness auto
termination
  by (relation "measure (\<lambda>(sep, s). length s)") auto

text \<open>\<open>sep.join(xs)\<close>.\<close>

fun join :: "pystr \<Rightarrow> pystr list \<Rightarrow> pystr" where
  "join sep [] = []"
| "join sep [x] = x"
| "join sep (x # y # ys) = x @ sep @ join sep (y # ys)"

text \<open>\<open>str(n)\<close> for a non-negative integer: its decimal digits.\<close>

function str_of_nat :: "nat \<Rightarrow> pystr" where
  "str_of_nat n = (if n < 10 then [48 + n] else str_of_nat (n div 10) @ [48 + n mod 10])"
  by pat_completeness auto
termination
  by (relation "measure id") auto

section \<open>The text segmenter of the notes stage\<close>

text \<open>
  \<open>chunk_text\<close> of \<open>lecture_notes_ollama.py\<close>. The loop state is the list of closed chunks,
  the lines of the open accumulator and its accounted length, which counts every line
  with one separator character.
\<close>

type_synonym chunk_state = "pystr list \<times> pystr list \<times> int"

definition chunk_init :: chunk_state where
  "chunk_init = ([], [], 0)"

fun chunk_step :: "int \<Rightarrow> chunk_state \<Rightarrow> pystr \<Rightarrow> chunk_state" where
  "chunk_step max_chars (chunks, current, current_len) raw_line =
     (let line = strip raw_line in
      if current_len + int (length line) + 1 > max_chars \<and> current \<noteq> []
      then (chunks @ [strip (join [LF] current)], [line], int (length line) + 1)
      else (chunks, current @ [line], current_len + int (length line) + 1))"

definition normalize_newlines :: "pystr \<Rightarrow> pystr" where
  "normalize_newlines text = replace [CR] [LF] (replace [CR, LF] [LF] text)"

fun chunk_close :: "chunk_state \<Rightarrow> pystr list" where
  "chunk_close (chunks, current, current_len) =
     (if current \<noteq> [] then chunks @ [strip (join [LF] current)] else chunks)"

definition chunk_text :: "pystr \<Rightarrow> int \<Rightarrow> pystr list" where
  "chunk_text text max_chars =
     filter (\<lambda>c. c \<noteq> [])
       (chunk_close (foldl (chunk_step max_chars) chunk_init (split [LF] (normalize_newlines text))))"

text \<open>\<open>str(i)\<close> for an integer.\<close>

definition str_of_int :: "int \<Rightarrow> pystr" where
  "str_of_int i = (if i < 0 then lit ''-'' @ str_of_nat (nat (- i)) else str_of_nat (nat i))"

section \<open>The paragraph segmenter of the translation stage\<close>

text \<open>
  The chunking written inline in \<open>main\<close> of \<open>translate_jp_to_en_ollama.py\<close>: the same
  accumulator over blank-line separated paragraphs, with two separator characters
  counted per paragraph; empty paragraphs are skipped and the joined chunk is not trimmed.
\<close>

type_synonym para_state = "pystr list \<times> pystr list \<times> int"

definition para_init :: para_state where
  "para_init = ([], [], 0)"

fun para_step :: "int \<Rightarrow> para_state \<Rightarrow> pystr \<Rightarrow> para_state" where
  "para_step max_chars (chunks, current, cur_len) raw_para =
     (let para = strip raw_para in
      if para = [] then (chunks, current, cur_len)
      else if cur_len + int (length para) + 2 > max_chars \<and> current \<noteq> []
      then (chunks @ [join [LF, LF] current], [para], int (length para) + 2)
      else (chunks, current @ [para], cur_len + int (length para) + 2))"

fun para_close :: "para_state \<Rightarrow> pystr list" where
  "para_close (chunks, current, cur_len) =
     (if current \<noteq> [] then chunks @ [join [LF, LF] current] else chunks)"

definition chunk_paragraphs :: "pystr \<Rightarrow> int \<Rightarrow> pystr list" where
  "chunk_paragraphs jp_text max_chars =
     para_close (foldl (para_step max_chars) para_init (split [LF, LF] (normalize_newlines jp_text)))"

section \<open>The target-language heuristic\<close>

text \<open>
  \<open>looks_like_japanese\<close> of \<open>transcribe_lecture.py\<close>. The character class of the regular
  expression is hiragana U+3041..U+3093, katakana U+30A1..U+30F3 and the ideographs
  U+4E00..U+9FAF. The threshold and the ratio are Python floats; the model computes with
  real numbers, which agrees with the floating-point comparison whenever the quotient is
  exactly representable, as the quotients \<open>0 / n\<close> and \<open>n / n\<close> are.
\<close>

definition is_jp_char :: "nat \<Rightarrow> bool" where
  "is_jp_char c \<longleftrightarrow>
     (12353 \<le> c \<and> c \<le> 12435) \<or> (12449 \<le> c \<and> c \<le> 12531) \<or> (19968 \<le> c \<and> c \<le> 40879)"

definition looks_like_japanese :: "pystr \<Rightarrow> real \<Rightarrow> bool" where
  "looks_like_japanese text threshold =
     (if text = [] then False
      else (let jp_chars = filter is_jp_char text;
                ratio = real (length jp_chars) / real (max (length text) 1)
            in ratio \<ge> threshold))"

text \<open>
  The default threshold \<open>0.3\<close> of the source is the double nearest to \<open>3 / 10\<close>, a little
  below it. For a text of fewer than \<open>10 ^ 15\<close> characters the rounded quotient reaches that
  double exactly when the quotient of the two lengths reaches \<open>3 / 10\<close>.
\<close>

definition default_threshold :: real where
  "default_threshold = 3 / 10"

section \<open>Paths\<close>

text \<open>
  A \<open>pathlib\<close> path is the list of its components, which is also what Python compares when
  it sorts paths. The paths of the scripts name files, so they have a last component.
\<close>

type_synonym path = "pystr list"

definition path_name :: "path \<Rightarrow> pystr" where
  "path_name p = (if p = [] then [] else last p)"

definition path_parent :: "path \<Rightarrow> path" where
  "path_parent p = butlast p"

text \<open>\<open>name.rfind(".")\<close>: the index of the last dot, if there is one.\<close>

definition rfind_dot :: "pystr \<Rightarrow> nat option" where
  "rfind_dot name =
     (if 46 \<in> set name
      then Some (length name - 1 - length (takeWhile (\<lambda>c. c \<noteq> 46) (rev name)))
      else None)"

definition path_stem :: "path \<Rightarrow> pystr" where
  "path_stem p =
     (let name = path_name p in
      case rfind_dot name of
        None \<Rightarrow> name
      | Some i \<Rightarrow> if 0 < i \<and> i < length name - 1 then take i name else name)"


definition path_str :: "path \<Rightarrow> pystr" where
  "path_str p =
     (if p = [] then lit ''.''
      else if hd p = lit ''/'' then lit ''/'' @ join (lit ''/'') (tl p)
      else join (lit ''/'') p)"

section \<open>The collaborators and the effects of a run\<close>

text \<open>
  The scripts talk to the file system, to the Ollama HTTP endpoint, to the \<open>ffmpeg\<close>
  process and to the Whisper model. A run is modelled by explicit state passing: the
  state is the trace of the effects performed so far, in order, and every raise of the
  source is an \<open>Inl\<close> result that ends the run. The collaborators are the fields of a
  \<open>world\<close>; the answers of the HTTP endpoint and of the speech recogniser may depend on
  everything that happened before, since neither is deterministic. Progress lines
  printed to the console are not part of the trace, and \<open>mkdir\<close> is taken to succeed.
  Writing the output can fail: \<open>Path.write_text\<close> creates or truncates the file and then
  encodes and writes the text, so a write that raises leaves the \<open>WriteFailed\<close> event of a
  file that exists but is empty or incomplete.
\<close>

datatype json =
  JNull | JBool bool | JNum int | JStr pystr | JArr "json list" | JObj "(pystr \<times> json) list"

record http_response =
  status_code :: nat
  body :: "json option"

datatype error =
  HTTPError nat
| JSONDecodeError
| AttributeError
| CalledProcessError int
| SystemExit int
| UnicodeEncodeError
| External pystr

datatype event =
  Post pystr json
| WriteText path pystr
| WriteFailed path
| Mkdir path
| Run "pystr list"
| LoadModel pystr pystr
| Transcribe pystr pystr

record world =
  path_exists :: "path \<Rightarrow> bool"
  read_text :: "path \<Rightarrow> error + pystr"
  http_post :: "event list \<Rightarrow> pystr \<Rightarrow> json \<Rightarrow> error + http_response"
  run_process :: "pystr list \<Rightarrow> int"
  listdir :: "path \<Rightarrow> pystr list"
  mps_available :: bool
  load_model :: "pystr \<Rightarrow> pystr \<Rightarrow> error option"
  transcribe :: "event list \<Rightarrow> pystr \<Rightarrow> pystr \<Rightarrow> error + (pystr \<times> pystr) list"
  write_error :: "path \<Rightarrow> pystr \<Rightarrow> error option"

type_synonym 'a run = "event list \<Rightarrow> (error + 'a) \<times> event list"




section \<open>The Ollama client\<close>

text \<open>
  \<open>call_ollama\<close>, the same function in \<open>lecture_notes_ollama.py\<close> and in
  \<open>translate_jp_to_en_ollama.py\<close>. \<open>raise_for_status\<close> raises for the status codes 400
  to 599; \<open>resp.json()\<close> raises when the body is not JSON (\<open>body = None\<close>); \<open>data.get\<close>
  needs a JSON object and \<open>.strip()\<close> a string, and both raise \<open>AttributeError\<close> otherwise.
  A JSON object is the list of its items.
\<close>

definition dict_get :: "(pystr \<times> json) list \<Rightarrow> pystr \<Rightarrow> json \<Rightarrow> json" where
  "dict_get d k dflt = (case map_of d k of None \<Rightarrow> dflt | Some v \<Rightarrow> v)"

definition raise_for_status :: "http_response \<Rightarrow> error option" where
  "raise_for_status resp =
     (if 400 \<le> status_code resp \<and> status_code resp < 600
      then Some (HTTPError (status_code resp)) else None)"

definition ollama_url :: "pystr \<Rightarrow> pystr" where
  "ollama_url host = host @ lit ''/api/generate''"

definition ollama_payload :: "pystr \<Rightarrow> pystr \<Rightarrow> json" where
  "ollama_payload model prompt =
     JObj [(lit ''model'', JStr model), (lit ''prompt'', JStr prompt), (lit ''stream'', JBool False)]"

definition call_ollama :: "world \<Rightarrow> pystr \<Rightarrow> pystr \<Rightarrow> pystr \<Rightarrow> pystr run" where
  "call_ollama w prompt model host t =
     (let url = ollama_url host;
          payload = ollama_payload model prompt;
          t1 = t @ [Post url payload]
      in case http_post w t url payload of
           Inl e \<Rightarrow> (Inl e, t1)
         | Inr resp \<Rightarrow>
             (case raise_for_status resp of
                Some e \<Rightarrow> (Inl e, t1)
              | None \<Rightarrow>
                  (case body resp of
                     None \<Rightarrow> (Inl JSONDecodeError, t1)
                   | Some (JObj d) \<Rightarrow>
                       (case dict_get d (lit ''response'') (JStr []) of
                          JStr s \<Rightarrow> (Inr (strip s), t1)
                        | _ \<Rightarrow> (Inl AttributeError, t1))
                   | Some _ \<Rightarrow> (Inl AttributeError, t1))))"

section \<open>The notes stage\<close>






definition final_notes_intro :: pystr where
  "final_notes_intro =
     [12354, 12394, 12383, 12399, 12289, 26085, 26412, 12398, 22823, 23398, 12391, 21193,
      24375, 12375, 12390, 12356, 12427, 30041, 23398, 29983, 12398, 12383, 12417, 12398, 10,
      12300, 20998, 12363, 12426, 12420, 12377, 12356, 35611, 32681, 12494, 12540, 12488,
      20316, 25104, 12450, 12471, 12473, 12479, 12531, 12488, 12301, 12391, 12377, 12290, 10,
      10, 20197, 19979, 12395, 12289, 35611, 32681, 20840, 20307, 12398, 35201, 32004, 12513,
      12514, 65288, 21508, 12497, 12540, 12488, 12372, 12392, 12398, 31623, 26465, 26360,
      12365, 65289, 12364, 19982, 12360, 12425, 12428, 12414, 12377, 12290, 10, 12371, 12428,
      12425, 12434, 12418, 12392, 12395, 12289, 65297, 12388, 12398, 35611, 32681, 12494,
      12540, 12488, 12434, 20316, 12387, 12390, 12367, 12384, 12373, 12356, 12290, 10, 10,
      23398, 29983, 12399] @
     lit '':'' @
     [10] @
     lit ''- '' @
     [26085, 26412, 35486, 12364, 31532, 65299, 35328, 35486, 10] @
     lit ''- '' @
     [12486, 12473, 12488, 23550, 31574, 12392, 12524, 12509, 12540, 12488, 20316, 25104,
      12395, 20351, 12356, 12383, 12356, 10] @
     lit ''- '' @
     [27508, 21490, 12420, 27010, 24565, 12398, 22240, 26524, 38306, 20418, 12434, 29702,
      35299, 12375, 12383, 12356, 10] @
     lit ''- '' @
     [37325, 35201, 12394, 29992, 35486, 12399, 26085, 26412, 35486, 12391, 12375, 12387,
      12363, 12426, 35226, 12360, 12383, 12356, 10, 10, 20986, 21147, 12501, 12457, 12540,
      12510, 12483, 12488, 12399] @
     lit ''**'' @
     [24517, 12378] @
     lit ''**'' @
     [27425, 12398, 35211, 20986, 12375, 12539, 38918, 30058, 12391, 20316, 12387, 12390,
      12367, 12384, 12373, 12356, 12290, 10, 35211, 20986, 12375, 12399, 12300] @
     lit ''### '' @
     [35211, 20986, 12375, 21517, 12301, 12398, 24418, 12391, 26360, 12356, 12390, 12367,
      12384, 12373, 12356, 12290, 10, 10] @
     lit ''1. '' @
     [20170, 26085, 12398, 12486, 12540, 12510, 10] @
     lit ''2. '' @
     [37325, 35201, 12461, 12540, 12527, 12540, 12489, 10] @
     lit ''3. '' @
     [29702, 35299, 12509, 12452, 12531, 12488, 10] @
     lit ''4. '' @
     [35430, 39443, 12395, 20986, 12381, 12358, 12394, 12392, 12371, 12429, 10] @
     lit ''5. Definitions Cheat Sheet'' @
     [10] @
     lit ''6. '' @
     [35201, 28857] @
     lit ''5'' @
     [34892, 12414, 12392, 12417, 10] @
     lit ''7. Q&A Flashcards'' @
     [10] @
     lit ''8. '' @
     [12513, 12514, 65306, 20808, 29983, 12398, 24375, 35519, 12509, 12452, 12531, 12488, 10,
      10, 12381, 12428, 12382, 12428, 12398, 12475, 12463, 12471, 12519, 12531, 12398, 25351,
      31034] @
     lit '':'' @
     [10, 10] @
     lit ''### '' @
     [20170, 26085, 12398, 12486, 12540, 12510, 10] @
     lit ''- '' @
     [35611, 32681, 20840, 20307, 12364, 20309, 12395, 12388, 12356, 12390, 12384, 12387,
      12383, 12363, 12434, 12289, 26085, 26412, 35486, 12391] @
     lit ''2'' @
     [12316] @
     lit ''4'' @
     [25991, 12391, 12414, 12392, 12417, 12427, 12290, 10, 10] @
     lit ''### '' @
     [37325, 35201, 12461, 12540, 12527, 12540, 12489, 10] @
     lit ''- '' @
     [31623, 26465, 26360, 12365, 12290, 10] @
     lit ''- '' @
     [24418, 24335, 12398, 20363] @
     lit '':'' @
     [10] @
     lit ''  '' @
     [12539, 29992, 35486] @
     lit '': '' @
     [26085, 26412, 35486, 12391] @
     lit ''1'' @
     [12316] @
     lit ''2'' @
     [34892, 12398, 35500, 26126, 10] @
     lit ''- '' @
     [20154, 21517, 12539, 22320, 21517, 12539, 26178, 20195, 21517, 12539, 27010, 24565,
      12434, 20013, 24515, 12395, 12290, 10, 10] @
     lit ''### '' @
     [29702, 35299, 12509, 12452, 12531, 12488, 10] @
     lit ''- '' @
     [26085, 26412, 35486, 12391, 12289, 22240, 26524, 38306, 20418, 12420, 27969, 12428,
      12364, 20998, 12363, 12427, 12424, 12358, 12395, 35500, 26126, 12290, 10] @
     lit ''- '' @
     [31623, 26465, 26360, 12365, 12391, 12418, 30701, 12356, 27573, 33853, 12391, 12418] @
     lit ''OK'' @
     [12290, 10] @
     lit ''- '' @
     [12300, 12394, 12380, 12316, 12364, 36215, 12365, 12383, 12363, 12301, 12300, 12393,
      12398, 21218, 21147, 12364, 12393, 12358, 21205, 12356, 12383, 12363, 12301, 12300,
      32080, 26524, 12393, 12358, 12394, 12387, 12383, 12363, 12301, 12434, 24847, 35672,
      12377, 12427, 12290, 10, 10] @
     lit ''### '' @
     [35430, 39443, 12395, 20986, 12381, 12358, 12394, 12392, 12371, 12429, 10] @
     lit ''- '' @
     [35352, 36848, 24335, 12420, 23567, 35542, 25991, 12391, 20986, 12381, 12358, 12394,
      35373, 21839, 12434, 26085, 26412, 35486, 12391] @
     lit ''3'' @
     [12316] @
     lit ''6'' @
     [20491, 20316, 12427, 12290, 10] @
     lit ''- '' @
     [12300, 12316, 12395, 12388, 12356, 12390, 35500, 26126, 12379, 12424, 12301, 12300,
      12316, 12398, 29305, 24500, 12434, 36848, 12409, 12424, 12301, 12394, 12393, 12398,
      24418, 12290, 10, 10] @
     lit ''### Definitions Cheat Sheet'' @
     [10] @
     lit ''- '' @
     [29992, 35486, 36766, 26360, 65288, 36229, 30701, 12367, 65289, 12290, 10] @
     lit ''- '' @
     [24418, 24335] @
     lit '':'' @
     [10] @
     lit ''  '' @
     [29992, 35486] @
     lit '': '' @
     [19968, 35328, 12391, 24847, 21619, 65288, 26085, 26412, 35486, 65289, 10] @
     lit ''- 5'' @
     [12316] @
     lit ''10'' @
     [35486, 31243, 24230, 12391] @
     lit ''OK'' @
     [12290, 10, 10] @
     lit ''### '' @
     [35201, 28857] @
     lit ''5'' @
     [34892, 12414, 12392, 12417, 10] @
     lit ''- '' @
     [26085, 26412, 35486, 12391] @
     lit ''5'' @
     [12388, 12398, 25991, 12395, 12414, 12392, 12417, 12427, 12290, 10] @
     lit ''- '' @
     [9312, 12316, 9316, 12398, 30058, 21495, 20184, 12365, 12391, 12290, 10, 10] @
     lit ''### Q&A Flashcards'' @
     [10] @
     lit ''- '' @
     [26263, 35352, 29992, 12398, 36074, 21839, 12392, 31572, 12360, 12434] @
     lit ''3'' @
     [12316] @
     lit ''8'' @
     [12475, 12483, 12488, 20316, 12427, 12290, 10] @
     lit ''- '' @
     [24418, 24335] @
     lit '':'' @
     [10] @
     lit ''  Q: '' @
     [65288, 26085, 26412, 35486, 12398, 36074, 21839, 65289, 10] @
     lit ''  A: '' @
     [65288, 26085, 26412, 35486, 12398, 31572, 12360, 65289, 10, 10] @
     lit ''### '' @
     [12513, 12514, 65306, 20808, 29983, 12398, 24375, 35519, 12509, 12452, 12531, 12488, 10] @
     lit ''- '' @
     [35611, 32681, 12398, 20013, 12391, 24375, 35519, 12373, 12428, 12390, 12356, 12381,
      12358, 12394, 12486, 12540, 12510, 12420, 12289, 20309, 24230, 12418, 20986, 12390,
      12365, 12383, 32771, 12360, 26041, 12434, 26085, 26412, 35486, 12391, 31623, 26465,
      26360, 12365, 12290, 10, 10] @
     lit ''--------------------------------'' @
     [10, 12304, 35611, 32681, 12513, 12514, 65288, 12497, 12540, 12488, 12372, 12392, 65289,
      12305, 10]"

definition final_notes_outro :: pystr where
  "final_notes_outro =
     [10] @
     lit ''--------------------------------'' @
     [10, 10, 12381, 12428, 12391, 12399, 12289, 25351, 31034, 12375, 12383, 12501, 12457,
      12540, 12510, 12483, 12488, 12395, 24467, 12387, 12390, 35611, 32681, 12494, 12540,
      12488, 12434, 20316, 25104, 12375, 12390, 12367, 12384, 12373, 12356, 12290, 10]"

text \<open>
  \<open>build_final_notes_from_summaries\<close>: the summaries are relabelled by position and
  joined by blank lines inside one prompt, which is sent in one request.
\<close>

definition part_block :: "pystr list \<Rightarrow> nat \<Rightarrow> pystr" where
  "part_block summaries i = lit ''[Part '' @ str_of_nat (i + 1) @ lit '']'' @ [LF] @ summaries ! i"

definition merged_summaries :: "pystr list \<Rightarrow> pystr" where
  "merged_summaries summaries =
     join [LF, LF] (map (part_block summaries) [0..<length summaries])"

definition final_notes_prompt :: "pystr list \<Rightarrow> pystr" where
  "final_notes_prompt summaries =
     final_notes_intro @ merged_summaries summaries @ final_notes_outro"

definition build_final_notes_from_summaries ::
    "world \<Rightarrow> pystr list \<Rightarrow> pystr \<Rightarrow> pystr \<Rightarrow> pystr run" where
  "build_final_notes_from_summaries w summaries model host =
     call_ollama w (final_notes_prompt summaries) model host"




section \<open>The translation stage\<close>







section \<open>The transcription stage\<close>

text \<open>
  \<open>split_audio\<close>. \<open>subprocess.run(cmd, check=True)\<close> raises for a non-zero exit status.
  \<open>chunk_dir.glob("chunk_*.m4a")\<close> yields the entries of the directory whose name starts
  with \<open>chunk_\<close> and ends with \<open>.m4a\<close>, in the order of the file system; \<open>sorted\<close> orders
  the paths by their components, each compared by code points.
\<close>

definition matches_chunk_pattern :: "pystr \<Rightarrow> bool" where
  "matches_chunk_pattern name \<longleftrightarrow>
     prefix (lit ''chunk_'') name \<and> suffix (lit ''.m4a'') name \<and> 10 \<le> length name"

definition glob_chunks :: "world \<Rightarrow> path \<Rightarrow> path list" where
  "glob_chunks w chunk_dir =
     map (\<lambda>name. chunk_dir @ [name]) (filter matches_chunk_pattern (listdir w chunk_dir))"

definition chunk_dir_of :: "path \<Rightarrow> path" where
  "chunk_dir_of input_path = path_parent input_path @ [path_stem input_path @ lit ''_chunks'']"

definition ffmpeg_cmd :: "path \<Rightarrow> int \<Rightarrow> pystr list" where
  "ffmpeg_cmd input_path chunk_seconds =
     [lit ''ffmpeg'', lit ''-i'', path_str input_path, lit ''-f'', lit ''segment'',
      lit ''-segment_time'', str_of_int chunk_seconds, lit ''-c'', lit ''copy'',
      path_str (chunk_dir_of input_path @ [lit ''chunk_%03d.m4a''])]"

definition split_audio :: "world \<Rightarrow> path \<Rightarrow> int \<Rightarrow> path list run" where
  "split_audio w input_path chunk_seconds t =
     (let chunk_dir = chunk_dir_of input_path;
          cmd = ffmpeg_cmd input_path chunk_seconds;
          t1 = t @ [Mkdir chunk_dir, Run cmd]
      in if run_process w cmd \<noteq> 0 then (Inl (CalledProcessError (run_process w cmd)), t1)
         else (let chunks = sort (glob_chunks w chunk_dir)
               in if chunks = [] then (Inl (SystemExit 1), t1) else (Inr chunks, t1)))"

text \<open>
  The names the demuxer gives its segments for the pattern \<open>chunk_%03d.m4a\<close>: the segment
  index, counted from 0, printed in decimal and padded with zeros to at least three digits.
\<close>

definition zero_pad3 :: "nat \<Rightarrow> pystr" where
  "zero_pad3 i = replicate (3 - length (str_of_nat i)) 48 @ str_of_nat i"

definition segment_name :: "nat \<Rightarrow> pystr" where
  "segment_name i = lit ''chunk_'' @ zero_pad3 i @ lit ''.m4a''"

text \<open>
  The chunk counts for which three digits hold every index; the spec's "supported chunk
  count" of a three-digit zero-padded index.
\<close>

definition supported_chunk_count :: "nat \<Rightarrow> bool" where
  "supported_chunk_count n \<longleftrightarrow> n \<le> 1000"

definition suspect_marker :: pystr where
  "suspect_marker =
     [10] @
     lit ''[? '' @
     [38750, 26085, 26412, 35486, 12387, 12413, 12356, 12481, 12515, 12531, 12463] @
     lit '' ''"

text \<open>The two forms of text that \<open>transcribe_chunks\<close> appends for a unit.\<close>

definition suspect_entry :: "nat \<Rightarrow> pystr \<Rightarrow> pystr" where
  "suspect_entry i text = suspect_marker @ str_of_nat i @ lit ''] '' @ text @ [LF]"

definition chunk_entry :: "nat \<Rightarrow> pystr \<Rightarrow> pystr \<Rightarrow> pystr" where
  "chunk_entry i name text =
     [LF] @ lit ''----- [Chunk '' @ str_of_nat i @ lit ''] '' @ name @ lit '' -----'' @ [LF] @
     text @ [LF]"

definition result_text :: "(pystr \<times> pystr) list \<Rightarrow> pystr" where
  "result_text result = strip (case map_of result (lit ''text'') of None \<Rightarrow> [] | Some s \<Rightarrow> s)"

text \<open>
  The loop of \<open>transcribe_chunks\<close> over \<open>enumerate(chunks, start=1)\<close>: \<open>i\<close> is the position
  of the next chunk and \<open>all_texts\<close> the list built so far.
\<close>

fun transcribe_loop ::
    "world \<Rightarrow> pystr \<Rightarrow> nat \<Rightarrow> path list \<Rightarrow> pystr list \<Rightarrow> pystr list run" where
  "transcribe_loop w language i [] all_texts t = (Inr all_texts, t)"
| "transcribe_loop w language i (chunk_path # rest) all_texts t =
     (case transcribe w t (path_str chunk_path) language of
        Inl e \<Rightarrow> (Inl e, t @ [Transcribe (path_str chunk_path) language])
      | Inr result \<Rightarrow>
          (if result_text result = []
           then transcribe_loop w language (i + 1) rest all_texts
                  (t @ [Transcribe (path_str chunk_path) language])
           else if \<not> looks_like_japanese (result_text result) default_threshold
           then transcribe_loop w language (i + 1) rest
                  (all_texts @ [suspect_entry i (result_text result)])
                  (t @ [Transcribe (path_str chunk_path) language])
           else transcribe_loop w language (i + 1) rest
                  (all_texts @ [chunk_entry i (path_name chunk_path) (result_text result)])
                  (t @ [Transcribe (path_str chunk_path) language])))"

definition transcribe_chunks :: "world \<Rightarrow> path list \<Rightarrow> pystr \<Rightarrow> pystr \<Rightarrow> pystr run" where
  "transcribe_chunks w chunks model_name language t =
     (let device = (if mps_available w then lit ''mps'' else lit ''cpu'');
          t1 = t @ [LoadModel model_name device]
      in case load_model w model_name device of
           Some e \<Rightarrow> (Inl e, t1)
         | None \<Rightarrow>
             (case transcribe_loop w language 1 chunks [] t1 of
                (Inl e, t2) \<Rightarrow> (Inl e, t2)
              | (Inr all_texts, t2) \<Rightarrow> (Inr (strip (join [LF] all_texts)), t2)))"



text \<open>
  What the spec says a unit contributes to the transcript, written out character by
  character and without the helpers of the code, from the position of the unit, the name
  of its file and its recognised text. A unit with an empty text contributes nothing.
  Otherwise it contributes one entry between two line feeds: the text behind the
  boundary line \<open>----- [Chunk i] name -----\<close> when the heuristic accepts it at the
  threshold \<open>0.3\<close>, and the text behind the marker \<open>[? \<dots> i]\<close> when it does not; the dots
  stand for the eleven Japanese characters of the marker, U+975E U+65E5 U+672C U+8A9E
  U+3063 U+307D U+3044 U+30C1 U+30E3 U+30F3 U+30AF.
\<close>

definition unit_line :: "nat \<Rightarrow> pystr \<Rightarrow> pystr \<Rightarrow> pystr" where
  "unit_line position name text =
     (if looks_like_japanese text (3 / 10)
      then lit ''----- [Chunk '' @ str_of_nat position @ lit ''] '' @ name @ lit '' -----'' @
           [10] @ text
      else lit ''[? '' @
           [38750, 26085, 26412, 35486, 12387, 12413, 12356, 12481, 12515, 12531, 12463] @
           lit '' '' @ str_of_nat position @ lit ''] '' @ text)"

definition unit_contribution :: "nat \<Rightarrow> pystr \<Rightarrow> pystr \<Rightarrow> pystr option" where
  "unit_contribution position name text =
     (if text = [] then None else Some ([10] @ unit_line position name text @ [10]))"

section \<open>Notions used in the properties\<close>

text \<open>The non-whitespace content of a string: its characters, in order, without the whitespace.\<close>

definition non_space_content :: "pystr \<Rightarrow> pystr" where
  "non_space_content s = filter (\<lambda>c. \<not> is_space c) s"

text \<open>
  The groups of lines that the loop of \<open>chunk_text\<close> closes, the still open accumulator
  last: the units before they are joined, trimmed and filtered.
\<close>

fun chunk_groups :: "int \<Rightarrow> pystr list list \<Rightarrow> pystr list \<Rightarrow> int \<Rightarrow> pystr list \<Rightarrow> pystr list list" where
  "chunk_groups max_chars groups current current_len [] =
     (if current \<noteq> [] then groups @ [current] else groups)"
| "chunk_groups max_chars groups current current_len (raw_line # rest) =
     (let line = strip raw_line in
      if current_len + int (length line) + 1 > max_chars \<and> current \<noteq> []
      then chunk_groups max_chars (groups @ [current]) [line] (int (length line) + 1) rest
      else chunk_groups max_chars groups (current @ [line]) (current_len + int (length line) + 1) rest)"

definition line_groups :: "pystr \<Rightarrow> int \<Rightarrow> pystr list list" where
  "line_groups text max_chars =
     chunk_groups max_chars [] [] 0 (split [LF] (normalize_newlines text))"

text \<open>The length the segmenter accounts for a group: every line with one separator.\<close>

definition accounted_len :: "pystr list \<Rightarrow> int" where
  "accounted_len ls = (\<Sum>l\<leftarrow>ls. int (length l) + 1)"

text \<open>
  The claim that every unit is maximal, as the spec words it: for every unit but the last,
  the unit with the first line of the next unit appended is longer than \<open>max_chars\<close>.
\<close>

definition first_line :: "pystr \<Rightarrow> pystr" where
  "first_line s = takeWhile (\<lambda>c. c \<noteq> LF) s"

definition units_maximal :: "pystr \<Rightarrow> int \<Rightarrow> bool" where
  "units_maximal text max_chars =
     (let units = chunk_text text max_chars
      in list_all (\<lambda>i. max_chars < int (length (units ! i @ [LF] @ first_line (units ! (i + 1)))))
           [0..<length units - 1])"

text \<open>
  Maximality as the loop establishes it, on the groups and with its own accounting:
  every group after the first starts with a line that did not fit the group before it.
\<close>

fun adjacent_full :: "int \<Rightarrow> pystr list list \<Rightarrow> bool" where
  "adjacent_full max_chars [] = True"
| "adjacent_full max_chars [g] = True"
| "adjacent_full max_chars (g # h # rest) =
     (h \<noteq> [] \<and> max_chars < accounted_len g + int (length (hd h)) + 1 \<and>
      adjacent_full max_chars (h # rest))"

text \<open>
  A summary relabelled with its 1-based position, as the second request is to show it, and
  where the block of summary \<open>i\<close> starts inside the prompt of that request: behind the
  fixed introduction and the earlier blocks, each followed by the blank-line separator.
\<close>

definition labelled_part :: "nat \<Rightarrow> pystr \<Rightarrow> pystr" where
  "labelled_part position summary = lit ''[Part '' @ str_of_nat position @ lit '']'' @ [LF] @ summary"

definition part_offset :: "pystr list \<Rightarrow> nat \<Rightarrow> nat" where
  "part_offset summaries i =
     length final_notes_intro +
     (\<Sum>j\<leftarrow>[0..<i]. length (labelled_part (j + 1) (summaries ! j)) + 2)"






text \<open>
  Worlds for concrete runs: every file exists and reads as \<open>content\<close>, the demuxer exits
  with \<open>code\<close> and leaves the directory entries \<open>names\<close>, the Whisper model loads, the
  HTTP endpoint and the recogniser answer as given, and no write fails but for its encoding.
\<close>

definition stub_world ::
    "pystr \<Rightarrow> (pystr \<Rightarrow> error + http_response) \<Rightarrow> int \<Rightarrow> pystr list \<Rightarrow>
     (pystr \<Rightarrow> error + (pystr \<times> pystr) list) \<Rightarrow> world" where
  "stub_world content answer code names recognise =
     \<lparr>path_exists = (\<lambda>p. True),
      read_text = (\<lambda>p. Inr content),
      http_post = (\<lambda>t url payload. answer url),
      run_process = (\<lambda>cmd. code),
      listdir = (\<lambda>d. names),
      mps_available = False,
      load_model = (\<lambda>name device. None),
      transcribe = (\<lambda>t p language. recognise p),
      write_error = (\<lambda>p data. None)\<rparr>"

definition ok_response :: "pystr \<Rightarrow> http_response" where
  "ok_response s = \<lparr>status_code = 200, body = Some (JObj [(lit ''response'', JStr s)])\<rparr>"

declare replace.simps [simp del]
declare split.simps [simp del]
declare str_of_nat.simps [simp del]

section \<open>Facts about the string operations\<close>

lemma nsc_append: "non_space_content (a @ b) = non_space_content a @ non_space_content b"
  by (simp add: non_space_content_def)

lemma nsc_dropWhile: "non_space_content (dropWhile is_space s) = non_space_content s"
  by (induction s) (simp_all add: non_space_content_def)

lemma nsc_rev: "non_space_content (rev s) = rev (non_space_content s)"
  by (simp add: non_space_content_def rev_filter)

lemma nsc_strip: "non_space_content (strip s) = non_space_content s"
  by (simp add: strip_def nsc_rev nsc_dropWhile)



lemma strip_edges: "strip s = [] \<or> (\<not> is_space (hd (strip s)) \<and> \<not> is_space (last (strip s)))"
proof (cases "strip s = []")
  case True then show ?thesis by simp
next
  case False
  let ?a = "dropWhile is_space s"
  let ?b = "dropWhile is_space (rev ?a)"
  have b: "?b \<noteq> []" using False by (simp add: strip_def)
  then have hb: "\<not> is_space (hd ?b)" by (rule hd_dropWhile)
  have a: "?a \<noteq> []" using b by (metis dropWhile.simps(1) rev.simps(1))
  then have ha: "\<not> is_space (hd ?a)" by (rule hd_dropWhile)
  have "last (strip s) = hd ?b" using b by (simp add: strip_def last_rev)
  moreover have "hd (strip s) = last ?b" using b by (simp add: strip_def hd_rev)
  moreover have "last ?b = last (rev ?a)"
    using b by (metis last_appendR takeWhile_dropWhile_id)
  moreover have "last (rev ?a) = hd ?a" using a by (simp add: last_rev)
  ultimately show ?thesis using ha hb by simp
qed



lemma nsc_join: "non_space_content sep = [] \<Longrightarrow> non_space_content (join sep xs) = non_space_content (concat xs)"
  by (induction sep xs rule: join.induct) (simp_all add: nsc_append)

lemma split_Nil: "sep \<noteq> [] \<Longrightarrow> split sep [] = [[]]"
  by (simp add: split.simps[of sep "[]"])

lemma replace_Nil: "old \<noteq> [] \<Longrightarrow> replace old new [] = []"
  by (simp add: replace.simps[of old new "[]"])

lemma split_prefix: "sep \<noteq> [] \<Longrightarrow> split sep (sep @ r) = [] # split sep r"
  by (subst split.simps) simp

lemma split_step:
  "sep \<noteq> [] \<Longrightarrow> \<not> prefix sep (c # r) \<Longrightarrow>
   split sep (c # r) = (case split sep r of [] \<Rightarrow> [[c]] | w # ws \<Rightarrow> (c # w) # ws)"
  by (subst split.simps) (simp split: list.splits)

lemma split_not_Nil: "sep \<noteq> [] \<Longrightarrow> split sep s \<noteq> []"
  by (subst split.simps) (simp split: list.splits)

lemma replace_prefix: "old \<noteq> [] \<Longrightarrow> replace old new (old @ r) = new @ replace old new r"
  by (subst replace.simps) simp

lemma replace_step:
  "old \<noteq> [] \<Longrightarrow> \<not> prefix old (c # r) \<Longrightarrow> replace old new (c # r) = c # replace old new r"
  by (subst replace.simps) simp

lemma join_split: "sep \<noteq> [] \<Longrightarrow> join sep (split sep s) = s"
proof (induction sep s rule: split.induct)
  case (1 sep s)
  show ?case
  proof (cases "s = []")
    case True
    then show ?thesis using "1.prems" by (simp add: split_Nil)
  next
    case ne: False
    show ?thesis
    proof (cases "prefix sep s")
      case True
      then obtain r where s: "s = sep @ r" by (auto simp: prefix_def)
      have ih: "join sep (split sep (drop (length sep) s)) = drop (length sep) s"
        using "1.IH"(1)[OF "1.prems" ne True] "1.prems" by simp
      have nz: "split sep r \<noteq> []" using "1.prems" by (rule split_not_Nil)
      have "split sep s = [] # split sep r" using "1.prems" s by (simp add: split_prefix)
      moreover have "join sep ([] # split sep r) = sep @ join sep (split sep r)"
        using nz by (cases "split sep r") simp_all
      ultimately show ?thesis using ih s by simp
    next
      case False
      have ih: "join sep (split sep (tl s)) = tl s"
        using "1.IH"(2)[OF "1.prems" ne False] "1.prems" by simp
      have nz: "split sep (tl s) \<noteq> []" using "1.prems" by (rule split_not_Nil)
      then obtain w ws where ws: "split sep (tl s) = w # ws" by (cases "split sep (tl s)") auto
      obtain c r where cr: "s = c # r" using ne by (cases s) auto
      have "split sep s = (hd s # w) # ws" using False "1.prems" ws cr by (simp add: split_step)
      moreover have "join sep ((hd s # w) # ws) = hd s # join sep (w # ws)"
        by (cases ws) simp_all
      ultimately show ?thesis using ih ws ne by simp
    qed
  qed
qed

lemma nsc_replace:
  "non_space_content old = [] \<Longrightarrow> non_space_content new = [] \<Longrightarrow> old \<noteq> [] \<Longrightarrow>
   non_space_content (replace old new s) = non_space_content s"
proof (induction old new s rule: replace.induct)
  case (1 old new s)
  show ?case
  proof (cases "s = []")
    case True
    then show ?thesis using "1.prems" by (simp add: replace_Nil)
  next
    case ne: False
    show ?thesis
    proof (cases "prefix old s")
      case True
      then obtain r where s: "s = old @ r" by (auto simp: prefix_def)
      have "non_space_content (replace old new (drop (length old) s)) = non_space_content (drop (length old) s)"
        using "1.IH"(1)[OF "1.prems"(3) ne True] "1.prems" by simp
      moreover have "replace old new s = new @ replace old new (drop (length old) s)"
        using "1.prems" s by (simp add: replace_prefix)
      ultimately show ?thesis using s "1.prems" by (simp add: nsc_append)
    next
      case False
      have "non_space_content (replace old new (tl s)) = non_space_content (tl s)"
        using "1.IH"(2)[OF "1.prems"(3) ne False] "1.prems" by simp
      moreover have "replace old new s = hd s # replace old new (tl s)"
        using ne False "1.prems" by (cases s) (simp_all add: replace_step)
      ultimately show ?thesis using ne by (cases s) (simp_all add: non_space_content_def)
    qed
  qed
qed

lemma nsc_newlines:
  "non_space_content [LF] = []" "non_space_content [CR] = []" "non_space_content [CR, LF] = []"
  "non_space_content [LF, LF] = []"
  by (simp_all add: non_space_content_def is_space_def CR_def LF_def)

lemma nsc_normalize: "non_space_content (normalize_newlines text) = non_space_content text"
  by (simp add: normalize_newlines_def nsc_replace nsc_newlines)

lemma split_Cons:
  "sep \<noteq> [] \<Longrightarrow> split sep (c # r) =
     (if prefix sep (c # r) then [] # split sep (drop (length sep) (c # r))
      else (case split sep r of [] \<Rightarrow> [[c]] | w # ws \<Rightarrow> (c # w) # ws))"
  by (subst split.simps) (simp split: list.splits)

lemma replace_Cons:
  "old \<noteq> [] \<Longrightarrow> replace old new (c # r) =
     (if prefix old (c # r) then new @ replace old new (drop (length old) (c # r))
      else c # replace old new r)"
  by (subst replace.simps) simp

section \<open>The text segmenter reconstructs its input\<close>

lemma concat_filter_nonempty: "concat (filter (\<lambda>c. c \<noteq> []) xs) = concat xs"
  by (induction xs) simp_all

lemma nsc_Nil: "non_space_content [] = []"
  by (simp add: non_space_content_def)

lemma nsc_chunk_close:
  "non_space_content (concat (chunk_close (chunks, current, l))) =
   non_space_content (concat chunks) @ non_space_content (concat current)"
  by (simp add: nsc_append nsc_strip nsc_join nsc_newlines nsc_Nil)

lemma nsc_chunk_step:
  "non_space_content (concat (chunk_close (chunk_step m st raw_line))) =
   non_space_content (concat (chunk_close st)) @ non_space_content raw_line"
proof -
  obtain chunks current l where st: "st = (chunks, current, l)" by (cases st) auto
  show ?thesis
    unfolding st
    by (simp add: Let_def nsc_append nsc_strip nsc_join nsc_newlines nsc_Nil)
qed

lemma nsc_chunk_fold:
  "non_space_content (concat (chunk_close (foldl (chunk_step m) st ls))) =
   non_space_content (concat (chunk_close st)) @ non_space_content (concat ls)"
proof (induction ls arbitrary: st)
  case Nil
  show ?case by (simp add: nsc_Nil)
next
  case (Cons l ls)
  show ?case by (simp add: Cons.IH nsc_chunk_step nsc_append)
qed

text \<open>
  Claim C1. For every input text and every \<open>max_chars\<close> (in particular every
  \<open>max_chars \<ge> 1\<close>), the units that \<open>chunk_text\<close> emits, concatenated in position order,
  have exactly the non-whitespace content of the input: the same characters in the same
  order, none lost and none moved. Only whitespace differs.
\<close>

theorem chunk_text_reconstructs_input:
  "non_space_content (concat (chunk_text text max_chars)) = non_space_content text"
proof -
  let ?lines = "split [LF] (normalize_newlines text)"
  have "non_space_content (concat (chunk_text text max_chars)) =
        non_space_content (concat (chunk_close (foldl (chunk_step max_chars) chunk_init ?lines)))"
    by (simp add: chunk_text_def concat_filter_nonempty)
  also have "\<dots> = non_space_content (concat ?lines)"
    by (simp add: nsc_chunk_fold chunk_init_def nsc_Nil)
  also have "\<dots> = non_space_content (join [LF] ?lines)"
    by (simp add: nsc_join nsc_newlines)
  also have "\<dots> = non_space_content (normalize_newlines text)"
    by (simp add: join_split)
  finally show ?thesis by (simp add: nsc_normalize)
qed

lemma length_join1:
  "xs \<noteq> [] \<Longrightarrow> int (length (join [c] xs)) = accounted_len xs - 1"
  by (induction "[c]" xs rule: join.induct) (simp_all add: accounted_len_def)

lemma accounted_len_snoc: "accounted_len (xs @ [l]) = accounted_len xs + int (length l) + 1"
  by (simp add: accounted_len_def)

section \<open>The size bound of the text segmenter\<close>





lemmas segmenter_eval =
  chunk_text_def chunk_init_def normalize_newlines_def lit_def LF_def CR_def
  replace_Cons replace_Nil split_Cons split_Nil strip_def is_space_def Let_def

section \<open>Greedy packing\<close>

lemma chunk_close_groups:
  "chunk_close (foldl (chunk_step m) (map (\<lambda>g. strip (join [LF] g)) groups, current, l) ls) =
   map (\<lambda>g. strip (join [LF] g)) (chunk_groups m groups current l ls)"
proof (induction ls arbitrary: groups current l)
  case Nil
  show ?case by simp
next
  case (Cons raw_line ls)
  show ?case
  proof (cases "l + int (length (strip raw_line)) + 1 > m \<and> current \<noteq> []")
    case True
    then have "chunk_step m (map (\<lambda>g. strip (join [LF] g)) groups, current, l) raw_line =
        (map (\<lambda>g. strip (join [LF] g)) (groups @ [current]), [strip raw_line],
         int (length (strip raw_line)) + 1)"
      by (auto simp: Let_def)
    then show ?thesis using True Cons.IH[of "groups @ [current]"] by (simp add: Let_def)
  next
    case False
    then have "chunk_step m (map (\<lambda>g. strip (join [LF] g)) groups, current, l) raw_line =
        (map (\<lambda>g. strip (join [LF] g)) groups, current @ [strip raw_line],
         l + int (length (strip raw_line)) + 1)"
      by (auto simp: Let_def)
    then show ?thesis using False Cons.IH[of groups] by (auto simp: Let_def)
  qed
qed

lemma chunk_text_groups:
  "chunk_text text m =
   filter (\<lambda>c. c \<noteq> [])
     (map (\<lambda>g. strip (join [LF] g)) (chunk_groups m [] [] 0 (split [LF] (normalize_newlines text))))"
  using chunk_close_groups[of m "[]" "[]" 0] by (simp add: chunk_text_def chunk_init_def)

lemma adjacent_full_extend:
  "adjacent_full m (groups @ [current]) \<Longrightarrow> groups = [] \<or> current \<noteq> [] \<Longrightarrow>
   adjacent_full m (groups @ [current @ [line]])"
proof (induction m groups rule: adjacent_full.induct)
  case (1 m)
  show ?case by simp
next
  case (2 m g)
  then show ?case by (cases current) simp_all
next
  case (3 m g h rest)
  then show ?case by simp
qed

lemma adjacent_full_close:
  "adjacent_full m (groups @ [current]) \<Longrightarrow> m < accounted_len current + int (length line) + 1 \<Longrightarrow>
   adjacent_full m (groups @ [current, [line]])"
proof (induction m groups rule: adjacent_full.induct)
  case (1 m)
  then show ?case by simp
next
  case (2 m g)
  then show ?case by simp
next
  case (3 m g h rest)
  then show ?case by simp
qed

lemma adjacent_full_butlast:
  "adjacent_full m (groups @ [current]) \<Longrightarrow> adjacent_full m groups"
proof (induction m groups rule: adjacent_full.induct)
  case (1 m)
  show ?case by simp
next
  case (2 m g)
  show ?case by simp
next
  case (3 m g h rest)
  then show ?case by simp
qed

lemma chunk_groups_adjacent:
  "adjacent_full m (groups @ [current]) \<Longrightarrow> groups = [] \<or> current \<noteq> [] \<Longrightarrow>
   l = accounted_len current \<Longrightarrow> adjacent_full m (chunk_groups m groups current l ls)"
proof (induction ls arbitrary: groups current l)
  case Nil
  then show ?case by (auto dest: adjacent_full_butlast)
next
  case (Cons raw_line ls)
  show ?case
  proof (cases "l + int (length (strip raw_line)) + 1 > m \<and> current \<noteq> []")
    case True
    have "adjacent_full m ((groups @ [current]) @ [[strip raw_line]])"
      using adjacent_full_close[OF Cons.prems(1), of "strip raw_line"] True Cons.prems(3) by simp
    then have "adjacent_full m (chunk_groups m (groups @ [current]) [strip raw_line]
                 (int (length (strip raw_line)) + 1) ls)"
      by (rule Cons.IH) (simp_all add: accounted_len_def)
    then show ?thesis using True by (simp add: Let_def)
  next
    case False
    have "adjacent_full m (groups @ [current @ [strip raw_line]])"
      by (rule adjacent_full_extend[OF Cons.prems(1) Cons.prems(2)])
    then have "adjacent_full m (chunk_groups m groups (current @ [strip raw_line])
                 (l + int (length (strip raw_line)) + 1) ls)"
      using Cons.prems by (intro Cons.IH) (auto simp: accounted_len_snoc)
    then show ?thesis using False by (auto simp: Let_def)
  qed
qed

lemma adjacent_full_nth:
  "adjacent_full m gs \<Longrightarrow> Suc i < length gs \<Longrightarrow>
   gs ! Suc i \<noteq> [] \<and> m < accounted_len (gs ! i) + int (length (hd (gs ! Suc i))) + 1"
proof (induction m gs arbitrary: i rule: adjacent_full.induct)
  case (1 m)
  then show ?case by simp
next
  case (2 m g)
  then show ?case by simp
next
  case (3 m g h rest)
  show ?case
  proof (cases i)
    case 0
    with 3 show ?thesis by simp
  next
    case (Suc j)
    with 3 show ?thesis by simp
  qed
qed

text \<open>
  Claim C3, as worded, fails. With \<open>max_chars = 3\<close> the two lines \<open>a\<close> and \<open>b\<close> become two
  units, although the first unit with the second line appended, \<open>a\<close>, line feed, \<open>b\<close>, has
  exactly 3 characters and so does not exceed the bound: the loop counts one separator
  for every line, the last one included.
\<close>

theorem chunk_text_not_maximal:
  "chunk_text (lit ''a'' @ [LF] @ lit ''b'') 3 = [lit ''a'', lit ''b''] \<and>
   length (lit ''a'' @ [LF] @ lit ''b'') = 3 \<and>
   \<not> units_maximal (lit ''a'' @ [LF] @ lit ''b'') 3"
proof -
  have e: "chunk_text (lit ''a'' @ [LF] @ lit ''b'') 3 = [lit ''a'', lit ''b'']"
    by (simp add: segmenter_eval)
  have "\<not> units_maximal (lit ''a'' @ [LF] @ lit ''b'') 3"
    unfolding units_maximal_def e by (simp add: first_line_def lit_def LF_def)
  with e show ?thesis by (simp add: lit_def)
qed

text \<open>
  Claim C3, amended. The units are the groups of lines that the loop closes, each joined
  by line feeds and trimmed, the empty ones dropped. For every group but the last, the
  first line of the next group did not fit by the loop's own accounting, which counts
  every line with one separator: the accounted length of the group plus the length of
  that line plus one exceeds \<open>max_chars\<close>. Equivalently, the group joined with that line,
  before trimming, has at least \<open>max_chars\<close> characters.
\<close>

theorem closed_groups_are_full:
  assumes "Suc i < length (line_groups text max_chars)"
  shows "chunk_text text max_chars =
           filter (\<lambda>c. c \<noteq> []) (map (\<lambda>g. strip (join [LF] g)) (line_groups text max_chars)) \<and>
         line_groups text max_chars ! Suc i \<noteq> [] \<and>
         max_chars < accounted_len (line_groups text max_chars ! i) +
                     int (length (hd (line_groups text max_chars ! Suc i))) + 1 \<and>
         max_chars \<le> int (length (join [LF]
                       (line_groups text max_chars ! i @ [hd (line_groups text max_chars ! Suc i)])))"
proof -
  let ?gs = "line_groups text max_chars"
  have "adjacent_full max_chars ?gs"
    unfolding line_groups_def by (rule chunk_groups_adjacent) (simp_all add: accounted_len_def)
  from adjacent_full_nth[OF this assms]
  have a: "?gs ! Suc i \<noteq> []"
    and b: "max_chars < accounted_len (?gs ! i) + int (length (hd (?gs ! Suc i))) + 1"
    by simp_all
  have "int (length (join [LF] (?gs ! i @ [hd (?gs ! Suc i)]))) =
        accounted_len (?gs ! i @ [hd (?gs ! Suc i)]) - 1"
    by (rule length_join1) simp
  with b have c: "max_chars \<le> int (length (join [LF] (?gs ! i @ [hd (?gs ! Suc i)])))"
    by (simp add: accounted_len_snoc)
  have d: "chunk_text text max_chars = filter (\<lambda>c. c \<noteq> []) (map (\<lambda>g. strip (join [LF] g)) ?gs)"
    unfolding line_groups_def by (rule chunk_text_groups)
  show ?thesis using a b c d by simp
qed

theorem closed_groups_are_full_witness:
  "line_groups (lit ''a'' @ [LF] @ lit ''b'') 3 = [[lit ''a''], [lit ''b'']] \<and>
   Suc 0 < length (line_groups (lit ''a'' @ [LF] @ lit ''b'') 3) \<and>
   (3::int) < accounted_len (line_groups (lit ''a'' @ [LF] @ lit ''b'') 3 ! 0) +
              int (length (hd (line_groups (lit ''a'' @ [LF] @ lit ''b'') 3 ! Suc 0))) + 1"
proof -
  have e: "line_groups (lit ''a'' @ [LF] @ lit ''b'') 3 = [[lit ''a''], [lit ''b'']]"
    by (simp add: line_groups_def segmenter_eval)
  have n: "Suc 0 < length (line_groups (lit ''a'' @ [LF] @ lit ''b'') 3)"
    unfolding e by simp
  from closed_groups_are_full[OF n] e n show ?thesis by blast
qed

section \<open>Oversized lines are units of their own\<close>









section \<open>The paragraph segmenter has the same two properties\<close>

lemma nsc_empty_strip: "strip s = [] \<Longrightarrow> non_space_content s = []"
  using nsc_strip[of s] by (simp add: nsc_Nil)

lemma nsc_para_step:
  "non_space_content (concat (para_close (para_step m st raw_para))) =
   non_space_content (concat (para_close st)) @ non_space_content raw_para"
proof -
  obtain chunks current l where st: "st = (chunks, current, l)" by (cases st) auto
  show ?thesis
    unfolding st
    by (simp add: Let_def nsc_append nsc_strip nsc_join nsc_newlines nsc_Nil nsc_empty_strip)
qed

lemma nsc_para_fold:
  "non_space_content (concat (para_close (foldl (para_step m) st ps))) =
   non_space_content (concat (para_close st)) @ non_space_content (concat ps)"
proof (induction ps arbitrary: st)
  case Nil
  show ?case by (simp add: nsc_Nil)
next
  case (Cons p ps)
  show ?case by (simp add: Cons.IH nsc_para_step nsc_append)
qed

lemma chunk_paragraphs_reconstructs_input:
  "non_space_content (concat (chunk_paragraphs jp_text max_chars)) = non_space_content jp_text"
proof -
  let ?paras = "split [LF, LF] (normalize_newlines jp_text)"
  have "non_space_content (concat (chunk_paragraphs jp_text max_chars)) =
        non_space_content (concat ?paras)"
    by (simp add: chunk_paragraphs_def nsc_para_fold para_init_def nsc_Nil)
  also have "\<dots> = non_space_content (join [LF, LF] ?paras)"
    by (simp add: nsc_join nsc_newlines)
  also have "\<dots> = non_space_content (normalize_newlines jp_text)"
    by (simp add: join_split)
  finally show ?thesis by (simp add: nsc_normalize)
qed

lemma length_join2:
  "xs \<noteq> [] \<Longrightarrow> int (length (join [c, d] xs)) = (\<Sum>l\<leftarrow>xs. int (length l) + 2) - 2"
  by (induction "[c, d]" xs rule: join.induct) simp_all

lemma para_step_bound:
  assumes chunks: "\<forall>c\<in>set chunks. int (length c) \<le> m \<or> c \<in> strip ` L"
    and cur: "current = [] \<or> (\<exists>l\<in>L. current = [strip l]) \<or> int (length (join [LF, LF] current)) < m"
    and len: "cur_len = (\<Sum>l\<leftarrow>current. int (length l) + 2)"
    and raw: "raw_para \<in> L"
    and step: "para_step m (chunks, current, cur_len) raw_para = (chunks', current', cur_len')"
  shows "(\<forall>c\<in>set chunks'. int (length c) \<le> m \<or> c \<in> strip ` L) \<and>
         (current' = [] \<or> (\<exists>l\<in>L. current' = [strip l]) \<or> int (length (join [LF, LF] current')) < m) \<and>
         cur_len' = (\<Sum>l\<leftarrow>current'. int (length l) + 2)"
proof (cases "strip raw_para = []")
  case True
  with step have "chunks' = chunks" "current' = current" "cur_len' = cur_len"
    by (simp_all add: Let_def)
  with chunks cur len show ?thesis by simp
next
  case para: False
  show ?thesis
  proof (cases "cur_len + int (length (strip raw_para)) + 2 > m \<and> current \<noteq> []")
    case True
    then have ne: "current \<noteq> []" by simp
    from True para step have eqs: "chunks' = chunks @ [join [LF, LF] current]"
        "current' = [strip raw_para]" "cur_len' = int (length (strip raw_para)) + 2"
      by (auto simp: Let_def split: if_splits)
    have closed: "int (length (join [LF, LF] current)) \<le> m \<or> join [LF, LF] current \<in> strip ` L"
      using cur ne by auto
    show ?thesis
      using chunks closed raw unfolding eqs by auto
  next
    case False
    from False para step have eqs: "chunks' = chunks"
        "current' = current @ [strip raw_para]"
        "cur_len' = cur_len + int (length (strip raw_para)) + 2"
      by (auto simp: Let_def split: if_splits)
    have open_ok: "(\<exists>l\<in>L. current' = [strip l]) \<or> int (length (join [LF, LF] current')) < m"
    proof (cases "current = []")
      case True
      then show ?thesis using raw eqs by auto
    next
      case ne: False
      with False have le: "cur_len + int (length (strip raw_para)) + 2 \<le> m" by simp
      have "int (length (join [LF, LF] current')) = (\<Sum>l\<leftarrow>current'. int (length l) + 2) - 2"
        unfolding eqs by (rule length_join2) simp
      also have "\<dots> = cur_len + int (length (strip raw_para))"
        unfolding eqs len by simp
      finally show ?thesis using le by simp
    qed
    show ?thesis
      using chunks open_ok unfolding eqs(1) by (simp add: eqs len)
  qed
qed

lemma para_fold_bound:
  assumes "\<forall>c\<in>set chunks. int (length c) \<le> m \<or> c \<in> strip ` L"
    and "current = [] \<or> (\<exists>l\<in>L. current = [strip l]) \<or> int (length (join [LF, LF] current)) < m"
    and "cur_len = (\<Sum>l\<leftarrow>current. int (length l) + 2)"
    and "set ps \<subseteq> L"
    and "foldl (para_step m) (chunks, current, cur_len) ps = (chunks', current', cur_len')"
  shows "(\<forall>c\<in>set chunks'. int (length c) \<le> m \<or> c \<in> strip ` L) \<and>
         (current' = [] \<or> (\<exists>l\<in>L. current' = [strip l]) \<or> int (length (join [LF, LF] current')) < m)"
  using assms
proof (induction ps arbitrary: chunks current cur_len)
  case Nil
  then show ?case by simp
next
  case (Cons raw_para ps)
  obtain c1 cur1 len1 where s1: "para_step m (chunks, current, cur_len) raw_para = (c1, cur1, len1)"
    by (cases "para_step m (chunks, current, cur_len) raw_para") auto
  have raw: "raw_para \<in> L" using Cons.prems(4) by simp
  have inv1: "(\<forall>c\<in>set c1. int (length c) \<le> m \<or> c \<in> strip ` L) \<and>
         (cur1 = [] \<or> (\<exists>l\<in>L. cur1 = [strip l]) \<or> int (length (join [LF, LF] cur1)) < m) \<and>
         len1 = (\<Sum>l\<leftarrow>cur1. int (length l) + 2)"
    by (rule para_step_bound[OF Cons.prems(1) Cons.prems(2) Cons.prems(3) raw s1])
  have rest: "foldl (para_step m) (c1, cur1, len1) ps = (chunks', current', cur_len')"
    using Cons.prems(5) s1 by simp
  show ?case
    using Cons.IH[OF _ _ _ _ rest] inv1 Cons.prems(4) by simp
qed

lemma chunk_paragraphs_size_bound:
  assumes "c \<in> set (chunk_paragraphs jp_text max_chars)"
  shows "int (length c) \<le> max_chars \<or>
         (\<exists>para\<in>set (split [LF, LF] (normalize_newlines jp_text)).
            c = strip para \<and> max_chars < int (length (strip para)))"
proof -
  let ?L = "set (split [LF, LF] (normalize_newlines jp_text))"
  obtain chunks current cur_len where
    f: "foldl (para_step max_chars) ([], [], 0) (split [LF, LF] (normalize_newlines jp_text)) =
        (chunks, current, cur_len)"
    by (cases "foldl (para_step max_chars) ([], [], 0) (split [LF, LF] (normalize_newlines jp_text))") auto
  have inv: "(\<forall>c\<in>set chunks. int (length c) \<le> max_chars \<or> c \<in> strip ` ?L) \<and>
         (current = [] \<or> (\<exists>l\<in>?L. current = [strip l]) \<or>
          int (length (join [LF, LF] current)) < max_chars)"
    by (rule para_fold_bound[OF _ _ _ _ f]) simp_all
  have "c \<in> set (para_close (chunks, current, cur_len))"
    using assms f by (simp add: chunk_paragraphs_def para_init_def)
  then have "int (length c) \<le> max_chars \<or> c \<in> strip ` ?L"
    using inv by (auto split: if_splits)
  then show ?thesis by (cases "int (length c) \<le> max_chars") auto
qed

section \<open>The target-language heuristic\<close>

lemma ratio_all_jp:
  "text \<noteq> [] \<Longrightarrow> list_all is_jp_char text \<Longrightarrow>
   real (length (filter is_jp_char text)) / real (max (length text) 1) = 1"
proof -
  assume ne: "text \<noteq> []" and "list_all is_jp_char text"
  then have f: "filter is_jp_char text = text" by (simp add: list_all_iff)
  have m: "max (length text) 1 = length text" using ne by (cases "text") simp_all
  have nz: "real (length text) \<noteq> 0" using ne by simp
  show ?thesis unfolding f m using nz by simp
qed

text \<open>
  Claim C7, as worded, fails at the empty string: all of its characters, there being
  none, lie in the target ranges, and the guard at the head of \<open>looks_like_japanese\<close>
  answers False whatever the threshold.
\<close>

theorem empty_string_not_japanese:
  "list_all is_jp_char [] \<and> (1::real) \<le> 1 \<and> \<not> looks_like_japanese [] 1"
  by (simp add: looks_like_japanese_def)

text \<open>
  Claim C7, amended. A non-empty string whose characters all lie in the target ranges is
  classified as likely target language for every threshold up to 1, and a string without
  any character of the target ranges is classified as not likely for every positive
  threshold.
\<close>

theorem looks_like_japanese_extremes:
  "(text \<noteq> [] \<and> list_all is_jp_char text \<and> threshold \<le> 1 \<longrightarrow> looks_like_japanese text threshold) \<and>
   (filter is_jp_char text = [] \<and> 0 < threshold \<longrightarrow> \<not> looks_like_japanese text threshold)"
proof (intro conjI impI)
  assume a: "text \<noteq> [] \<and> list_all is_jp_char text \<and> threshold \<le> 1"
  then have ne: "text \<noteq> []" and jp: "list_all is_jp_char text" and th: "threshold \<le> 1"
    by simp_all
  have r: "real (length (filter is_jp_char text)) / real (max (length text) 1) = 1"
    by (rule ratio_all_jp[OF ne jp])
  show "looks_like_japanese text threshold"
    unfolding looks_like_japanese_def Let_def r using ne th by simp
next
  assume "filter is_jp_char text = [] \<and> 0 < threshold"
  then show "\<not> looks_like_japanese text threshold"
    by (simp add: looks_like_japanese_def Let_def)
qed

theorem looks_like_japanese_extremes_witness:
  "looks_like_japanese [12354, 28450] 1 \<and> \<not> looks_like_japanese (lit ''abc'') (3 / 10)"
proof -
  have a: "[12354, 28450] \<noteq> [] \<and> list_all is_jp_char [12354, 28450] \<and> (1::real) \<le> 1"
    by (simp add: is_jp_char_def)
  have b: "filter is_jp_char (lit ''abc'') = [] \<and> (0::real) < 3 / 10"
    by (simp add: is_jp_char_def lit_def)
  from looks_like_japanese_extremes[of "[12354, 28450]" 1] a
    looks_like_japanese_extremes[of "lit ''abc''" "3 / 10"] b
  show ?thesis by blast
qed

text \<open>
  Claim C9. The empty string is classified as not likely whatever the threshold, and with
  a threshold of zero or less every non-empty string is classified as likely, even one
  without any character of the target ranges.
\<close>

theorem looks_like_japanese_degenerate:
  "\<not> looks_like_japanese [] threshold \<and>
   (threshold \<le> 0 \<and> text \<noteq> [] \<longrightarrow> looks_like_japanese text threshold)"
proof (intro conjI impI)
  show "\<not> looks_like_japanese [] threshold" by (simp add: looks_like_japanese_def)
next
  assume a: "threshold \<le> 0 \<and> text \<noteq> []"
  have "0 \<le> real (length (filter is_jp_char text)) / real (max (length text) 1)" by simp
  with a have "threshold \<le> real (length (filter is_jp_char text)) / real (max (length text) 1)"
    by (meson order_trans)
  with a show "looks_like_japanese text threshold"
    unfolding looks_like_japanese_def Let_def by (simp only: if_False simp_thms)
qed

theorem looks_like_japanese_degenerate_witness:
  "filter is_jp_char (lit ''abc'') = [] \<and> looks_like_japanese (lit ''abc'') 0 \<and>
   \<not> looks_like_japanese [] 0"
proof -
  have a: "(0::real) \<le> 0 \<and> lit ''abc'' \<noteq> []" by (simp add: lit_def)
  have b: "filter is_jp_char (lit ''abc'') = []" by (simp add: is_jp_char_def lit_def)
  from looks_like_japanese_degenerate[of 0 "lit ''abc''"] a b show ?thesis by blast
qed

section \<open>The Ollama client\<close>

lemma call_ollama_trace:
  "snd (call_ollama w prompt model host t) =
   t @ [Post (ollama_url host) (ollama_payload model prompt)]"
  by (simp add: call_ollama_def Let_def split: sum.splits option.splits json.splits)

text \<open>
  Claim C10. When the endpoint answers with a status below 400, the success statuses
  among them, and a JSON object, \<open>call_ollama\<close> returns the \<open>response\<close> string of the object
  trimmed of surrounding whitespace, and the empty string when the object has no
  \<open>response\<close> entry; it does not raise.
\<close>

theorem call_ollama_success:
  assumes "http_post w t (ollama_url host) (ollama_payload model prompt) = Inr resp"
    and "status_code resp < 400"
    and "body resp = Some (JObj d)"
  shows "(map_of d (lit ''response'') = Some (JStr s) \<longrightarrow>
            fst (call_ollama w prompt model host t) = Inr (strip s)) \<and>
         (map_of d (lit ''response'') = None \<longrightarrow>
            fst (call_ollama w prompt model host t) = Inr [])"
  using assms
  by (simp add: call_ollama_def Let_def raise_for_status_def dict_get_def strip_def)

theorem call_ollama_success_witness:
  "fst (call_ollama (stub_world [] (\<lambda>url. Inr (ok_response (lit '' ok ''))) 0 [] (\<lambda>p. Inr []))
          (lit ''hi'') (lit ''llama3.1'') (lit ''http://localhost:11434'') []) = Inr (lit ''ok'') \<and>
   fst (call_ollama (stub_world [] (\<lambda>url. Inr \<lparr>status_code = 200, body = Some (JObj [])\<rparr>) 0 [] (\<lambda>p. Inr []))
          (lit ''hi'') (lit ''llama3.1'') (lit ''http://localhost:11434'') []) = Inr []"
proof -
  let ?w1 = "stub_world [] (\<lambda>url. Inr (ok_response (lit '' ok ''))) 0 [] (\<lambda>p. Inr [])"
  let ?w2 = "stub_world [] (\<lambda>url. Inr \<lparr>status_code = 200, body = Some (JObj [])\<rparr>) 0 [] (\<lambda>p. Inr [])"
  let ?h = "lit ''http://localhost:11434''"
  let ?m = "lit ''llama3.1''"
  have p1: "http_post ?w1 [] (ollama_url ?h) (ollama_payload ?m (lit ''hi'')) = Inr (ok_response (lit '' ok ''))"
    by (simp add: stub_world_def)
  have s1: "status_code (ok_response (lit '' ok '')) < 400" by (simp add: ok_response_def)
  have b1: "body (ok_response (lit '' ok '')) = Some (JObj [(lit ''response'', JStr (lit '' ok ''))])"
    by (simp add: ok_response_def)
  have m1: "map_of [(lit ''response'', JStr (lit '' ok ''))] (lit ''response'') = Some (JStr (lit '' ok ''))"
    by simp
  have t1: "strip (lit '' ok '') = lit ''ok''" by (simp add: strip_def lit_def is_space_def)
  have p2: "http_post ?w2 [] (ollama_url ?h) (ollama_payload ?m (lit ''hi'')) = Inr \<lparr>status_code = 200, body = Some (JObj [])\<rparr>"
    by (simp add: stub_world_def)
  have m2: "map_of ([] :: (pystr \<times> json) list) (lit ''response'') = None" by simp
  from call_ollama_success[OF p1 s1 b1, of "lit '' ok ''"] m1 t1
  have r1: "fst (call_ollama ?w1 (lit ''hi'') ?m ?h []) = Inr (lit ''ok'')" by simp
  from call_ollama_success[OF p2, of "[]"] m2
  have r2: "fst (call_ollama ?w2 (lit ''hi'') ?m ?h []) = Inr []" by simp
  from r1 r2 show ?thesis by simp
qed

section \<open>The second-pass request of the notes stage\<close>

lemma join_nth:
  "i < length xs \<Longrightarrow>
   take (length (xs ! i)) (drop (\<Sum>x\<leftarrow>take i xs. length x + length sep) (join sep xs)) = xs ! i"
proof (induction sep xs arbitrary: i rule: join.induct)
  case (1 sep)
  then show ?case by simp
next
  case (2 sep x)
  then show ?case by simp
next
  case (3 sep x y ys)
  show ?case
  proof (cases i)
    case 0
    then show ?thesis by simp
  next
    case (Suc j)
    with 3 have "j < length (y # ys)" by simp
    from "3.IH"[OF this] Suc show ?thesis by (simp add: add.commute add.left_commute)
  qed
qed

lemma length_join_bound:
  "i < length xs \<Longrightarrow>
   (\<Sum>x\<leftarrow>take i xs. length x + length sep) + length (xs ! i) \<le> length (join sep xs)"
proof (induction sep xs arbitrary: i rule: join.induct)
  case (1 sep)
  then show ?case by simp
next
  case (2 sep x)
  then show ?case by simp
next
  case (3 sep x y ys)
  show ?case
  proof (cases i)
    case 0
    then show ?thesis by simp
  next
    case (Suc j)
    with 3 have "j < length (y # ys)" by simp
    from "3.IH"[OF this] Suc show ?thesis by simp
  qed
qed

lemma take_drop_append:
  "n + k \<le> length xs \<Longrightarrow> take k (drop n (xs @ ys)) = take k (drop n xs)"
  by simp

lemma drop_append_length: "drop (length xs + k) (xs @ ys) = drop k ys"
  by simp

lemma part_offset_blocks:
  assumes "i \<le> length summaries"
  shows "part_offset summaries i =
         length final_notes_intro +
         (\<Sum>x\<leftarrow>take i (map (part_block summaries) [0..<length summaries]). length x + length [LF, LF])"
proof -
  have "take i (map (part_block summaries) [0..<length summaries]) = map (part_block summaries) [0..<i]"
    using assms by (simp add: take_map min_def)
  then show ?thesis by (simp add: part_offset_def comp_def part_block_def labelled_part_def)
qed

text \<open>
  Claim C4. For a non-empty list of summaries, \<open>build_final_notes_from_summaries\<close> sends
  exactly one request. Its payload is the JSON object with the model, the prompt and
  \<open>stream = false\<close>, and the prompt field holds, for every position \<open>i\<close>, the label
  \<open>[Part i+1]\<close>, a line feed and summary \<open>i\<close> at the offset \<open>part_offset summaries i\<close>. The
  block of a position ends before the block of the next position starts, so the
  summaries stand in the payload in strictly ascending position order, each under its
  1-based label, and all of them inside the prompt.
\<close>

theorem final_request_enumerates_parts:
  assumes "summaries \<noteq> []" and "i < length summaries"
  shows "snd (build_final_notes_from_summaries w summaries model host t) =
           t @ [Post (host @ lit ''/api/generate'')
                  (JObj [(lit ''model'', JStr model),
                         (lit ''prompt'', JStr (final_notes_prompt summaries)),
                         (lit ''stream'', JBool False)])] \<and>
         take (length (lit ''[Part '' @ str_of_nat (i + 1) @ lit '']'' @ [LF] @ summaries ! i))
              (drop (part_offset summaries i) (final_notes_prompt summaries)) =
           lit ''[Part '' @ str_of_nat (i + 1) @ lit '']'' @ [LF] @ summaries ! i \<and>
         part_offset summaries i +
           length (lit ''[Part '' @ str_of_nat (i + 1) @ lit '']'' @ [LF] @ summaries ! i)
           < part_offset summaries (Suc i) \<and>
         part_offset summaries i +
           length (lit ''[Part '' @ str_of_nat (i + 1) @ lit '']'' @ [LF] @ summaries ! i)
           \<le> length (final_notes_prompt summaries)"
proof -
  let ?blocks = "map (part_block summaries) [0..<length summaries]"
  let ?block = "lit ''[Part '' @ str_of_nat (i + 1) @ lit '']'' @ [LF] @ summaries ! i"
  have i: "i < length ?blocks" using assms(2) by simp
  have nth: "?blocks ! i = ?block" using assms(2) by (simp add: part_block_def)
  have off: "part_offset summaries i =
      length final_notes_intro + (\<Sum>x\<leftarrow>take i ?blocks. length x + length [LF, LF])"
    using assms(2) by (intro part_offset_blocks) simp
  have a: "snd (build_final_notes_from_summaries w summaries model host t) =
           t @ [Post (host @ lit ''/api/generate'')
                  (JObj [(lit ''model'', JStr model),
                         (lit ''prompt'', JStr (final_notes_prompt summaries)),
                         (lit ''stream'', JBool False)])]"
    by (simp add: build_final_notes_from_summaries_def call_ollama_trace ollama_url_def
        ollama_payload_def)
  have p: "final_notes_prompt summaries = final_notes_intro @ (join [LF, LF] ?blocks @ final_notes_outro)"
    by (simp add: final_notes_prompt_def merged_summaries_def)
  let ?k = "\<Sum>x\<leftarrow>take i ?blocks. length x + length [LF, LF]"
  have fit: "?k + length (?blocks ! i) \<le> length (join [LF, LF] ?blocks)"
    by (rule length_join_bound[OF i])
  have "take (length (?blocks ! i)) (drop (part_offset summaries i) (final_notes_prompt summaries)) =
        take (length (?blocks ! i)) (drop ?k (join [LF, LF] ?blocks @ final_notes_outro))"
    unfolding off p by (simp only: drop_append_length)
  also have "\<dots> = take (length (?blocks ! i)) (drop ?k (join [LF, LF] ?blocks))"
    by (rule take_drop_append[OF fit])
  also have "\<dots> = ?blocks ! i" by (rule join_nth[OF i])
  finally have b: "take (length ?block)
          (drop (part_offset summaries i) (final_notes_prompt summaries)) = ?block"
    unfolding nth .
  have c: "part_offset summaries i + length ?block < part_offset summaries (Suc i)"
    by (simp add: part_offset_def labelled_part_def)
  have d: "part_offset summaries i + length ?block \<le> length (final_notes_prompt summaries)"
    using fit unfolding off p nth by simp
  show ?thesis
    by (intro conjI) (rule a, rule b, rule c, rule d)
qed

theorem final_request_enumerates_parts_witness:
  "snd (build_final_notes_from_summaries
          (stub_world [] (\<lambda>url. Inr (ok_response [])) 0 [] (\<lambda>p. Inr []))
          [lit ''one'', lit ''two'', lit ''three''] (lit ''llama3.1'') (lit ''http://h'') []) =
     [Post (lit ''http://h/api/generate'')
        (JObj [(lit ''model'', JStr (lit ''llama3.1'')),
               (lit ''prompt'', JStr (final_notes_prompt [lit ''one'', lit ''two'', lit ''three''])),
               (lit ''stream'', JBool False)])] \<and>
   take 14 (drop (part_offset [lit ''one'', lit ''two'', lit ''three''] 2)
              (final_notes_prompt [lit ''one'', lit ''two'', lit ''three''])) =
     lit ''[Part 3]'' @ [LF] @ lit ''three'' \<and>
   part_offset [lit ''one'', lit ''two'', lit ''three''] 1 + 12 <
     part_offset [lit ''one'', lit ''two'', lit ''three''] 2"
proof -
  let ?S = "[lit ''one'', lit ''two'', lit ''three'']"
  let ?w = "stub_world [] (\<lambda>url. Inr (ok_response [])) 0 [] (\<lambda>p. Inr [])"
  have a: "?S \<noteq> []" by simp
  have b2: "(2::nat) < length ?S" and b1: "(1::nat) < length ?S" by simp_all
  have d3: "str_of_nat (2 + 1) = lit ''3''"
    by (subst str_of_nat.simps) (simp add: lit_def)
  have d2: "str_of_nat (1 + 1) = lit ''2''"
    by (subst str_of_nat.simps) (simp add: lit_def)
  note T2 = final_request_enumerates_parts[OF a b2, of ?w "lit ''llama3.1''" "lit ''http://h''" "[]"]
  note T1 = final_request_enumerates_parts[OF a b1, of ?w "lit ''llama3.1''" "lit ''http://h''" "[]"]
  have p: "snd (build_final_notes_from_summaries ?w ?S (lit ''llama3.1'') (lit ''http://h'') []) =
     [Post (lit ''http://h/api/generate'')
        (JObj [(lit ''model'', JStr (lit ''llama3.1'')),
               (lit ''prompt'', JStr (final_notes_prompt ?S)),
               (lit ''stream'', JBool False)])]"
    using conjunct1[OF T2] by (simp add: lit_def)
  have blk3: "lit ''[Part '' @ str_of_nat (2 + 1) @ lit '']'' @ [LF] @ ?S ! 2 =
              lit ''[Part 3]'' @ [LF] @ lit ''three''"
    unfolding d3 by (simp add: lit_def)
  have len3: "length (lit ''[Part 3]'' @ [LF] @ lit ''three'') = 14"
    by (simp add: lit_def)
  have blk2: "lit ''[Part '' @ str_of_nat (1 + 1) @ lit '']'' @ [LF] @ ?S ! 1 =
              lit ''[Part 2]'' @ [LF] @ lit ''two''"
    unfolding d2 by (simp add: lit_def)
  have len2: "length (lit ''[Part 2]'' @ [LF] @ lit ''two'') = 12"
    by (simp add: lit_def)
  have q: "take 14 (drop (part_offset ?S 2) (final_notes_prompt ?S)) = lit ''[Part 3]'' @ [LF] @ lit ''three''"
    using conjunct1[OF conjunct2[OF T2]] unfolding blk3 len3 .
  have r: "part_offset ?S 1 + 12 < part_offset ?S 2"
    using conjunct1[OF conjunct2[OF conjunct2[OF T1]]] unfolding blk2 len2
    by (simp add: numeral_2_eq_2)
  show ?thesis by (intro conjI) (rule p, rule q, rule r)
qed

section \<open>Skipping and flagging in the transcription loop\<close>

lemma map_filter_Cons_None: "f x = None \<Longrightarrow> List.map_filter f (x # xs) = List.map_filter f xs"
  by (simp add: List.map_filter_def)

lemma map_filter_Cons_Some: "f x = Some y \<Longrightarrow> List.map_filter f (x # xs) = y # List.map_filter f xs"
  by (simp add: List.map_filter_def)

lemma map_filter_member: "x \<in> set xs \<Longrightarrow> f x = Some y \<Longrightarrow> y \<in> set (List.map_filter f xs)"
  by (induction xs) (auto simp: List.map_filter_def)

lemma join_contains: "x \<in> set xs \<Longrightarrow> \<exists>pre post. join sep xs = pre @ x @ post"
proof (induction sep xs rule: join.induct)
  case (1 sep)
  then show ?case by simp
next
  case (2 sep y)
  then have "join sep [y] = [] @ x @ []" by simp
  then show ?case by blast
next
  case (3 sep y z zs)
  show ?case
  proof (cases "x = y")
    case True
    then have "join sep (y # z # zs) = [] @ x @ (sep @ join sep (z # zs))" by simp
    then show ?thesis by blast
  next
    case False
    with "3.prems" have "x \<in> set (z # zs)" by simp
    from "3.IH"[OF this] obtain pre post where "join sep (z # zs) = pre @ x @ post" by blast
    then have "join sep (y # z # zs) = (y @ sep @ pre) @ x @ post" by simp
    then show ?thesis by blast
  qed
qed

lemma dropWhile_keeps:
  "m \<noteq> [] \<Longrightarrow> \<not> P (hd m) \<Longrightarrow> dropWhile P (a @ m @ b) = dropWhile P a @ m @ b"
  by (induction a) (cases m; simp)+

lemma strip_keeps:
  assumes "m \<noteq> []" and "\<not> is_space (hd m)" and "\<not> is_space (last m)"
  shows "sublist m (strip (a @ m @ b))"
proof -
  let ?a1 = "dropWhile is_space a"
  have 1: "dropWhile is_space (a @ m @ b) = ?a1 @ m @ b"
    by (rule dropWhile_keeps[of m is_space a b, OF assms(1,2)])
  have rm: "rev m \<noteq> []" "\<not> is_space (hd (rev m))"
    using assms(1,3) by (simp_all add: hd_rev)
  have 2: "dropWhile is_space (rev b @ rev m @ rev ?a1) =
           dropWhile is_space (rev b) @ rev m @ rev ?a1"
    by (rule dropWhile_keeps[of "rev m" is_space "rev b" "rev ?a1", OF rm])
  have "strip (a @ m @ b) = ?a1 @ m @ rev (dropWhile is_space (rev b))"
    unfolding strip_def 1 by (simp add: 2)
  then show ?thesis unfolding sublist_def by blast
qed

lemma unit_line_edges:
  assumes "text \<noteq> []" and "\<not> is_space (last text)"
  shows "unit_line position name text \<noteq> [] \<and> \<not> is_space (hd (unit_line position name text)) \<and>
         \<not> is_space (last (unit_line position name text))"
  using assms by (simp add: unit_line_def lit_def is_space_def)

lemma entry_in_transcript:
  assumes "[LF] @ line @ [LF] \<in> set entries"
    and "line \<noteq> []" and "\<not> is_space (hd line)" and "\<not> is_space (last line)"
  shows "sublist line (strip (join [LF] entries))"
proof -
  from join_contains[OF assms(1)] obtain pre post where
    "join [LF] entries = pre @ ([LF] @ line @ [LF]) @ post" by blast
  then have e: "join [LF] entries = (pre @ [LF]) @ line @ ([LF] @ post)" by simp
  show ?thesis unfolding e by (rule strip_keeps[OF assms(2,3,4)])
qed

lemma transcribe_loop_contributions:
  assumes "\<forall>t' p. p \<in> set chunks \<longrightarrow>
             (\<exists>result. transcribe w t' (path_str p) language = Inr result \<and>
                       map_of result (lit ''text'') = Some (raw p))"
  shows "fst (transcribe_loop w language i chunks all_texts t) =
         Inr (all_texts @
              List.map_filter (\<lambda>(k, p). unit_contribution k (path_name p) (strip (raw p)))
                (zip [i..<i + length chunks] chunks))"
  using assms
proof (induction chunks arbitrary: i all_texts t)
  case Nil
  show ?case by (simp add: List.map_filter_def)
next
  case (Cons p rest)
  let ?f = "\<lambda>(k, p). unit_contribution k (path_name p) (strip (raw p))"
  obtain result where r: "transcribe w t (path_str p) language = Inr result"
    and tx: "map_of result (lit ''text'') = Some (raw p)"
    using Cons.prems by auto
  have rt: "result_text result = strip (raw p)" using tx by (simp add: result_text_def)
  have rest: "\<forall>t' q. q \<in> set rest \<longrightarrow>
             (\<exists>result. transcribe w t' (path_str q) language = Inr result \<and>
                       map_of result (lit ''text'') = Some (raw q))"
    using Cons.prems by simp
  have z: "zip [i..<i + length (p # rest)] (p # rest) = (i, p) # zip [Suc i..<Suc i + length rest] rest"
    by (simp add: upt_conv_Cons del: upt_Suc)
  note ih = Cons.IH[OF rest, of "Suc i"]
  show ?case
  proof (cases "strip (raw p) = []")
    case True
    then have "?f (i, p) = None" by (simp add: unit_contribution_def)
    then show ?thesis unfolding z using r rt True ih by (simp add: map_filter_Cons_None)
  next
    case ne: False
    show ?thesis
    proof (cases "looks_like_japanese (strip (raw p)) (3 / 10)")
      case True
      then have "?f (i, p) = Some (chunk_entry i (path_name p) (strip (raw p)))"
        using ne by (simp add: unit_contribution_def unit_line_def chunk_entry_def LF_def)
      then show ?thesis unfolding z using r rt ne True ih
        by (simp add: map_filter_Cons_Some default_threshold_def)
    next
      case False
      then have "?f (i, p) = Some (suspect_entry i (strip (raw p)))"
        using ne by (simp add: unit_contribution_def unit_line_def suspect_entry_def
            suspect_marker_def LF_def)
      then show ?thesis unfolding z using r rt ne False ih
        by (simp add: map_filter_Cons_Some default_threshold_def)
    qed
  qed
qed

lemma zip_positions_member:
  "k < length chunks \<Longrightarrow> (k + 1, chunks ! k) \<in> set (zip [1..<1 + length chunks] chunks)"
proof -
  assume k: "k < length chunks"
  have len: "length [1..<1 + length chunks] = length chunks" by (simp del: upt_Suc)
  have a: "[1..<1 + length chunks] ! k = k + 1" using k by (subst nth_upt) simp_all
  have "zip [1..<1 + length chunks] chunks ! k = (k + 1, chunks ! k)"
    using k len a by (simp only: nth_zip)
  moreover have "k < length (zip [1..<1 + length chunks] chunks)"
    using k len by (simp only: length_zip min.idem)
  ultimately show ?thesis by (metis nth_mem)
qed

text \<open>
  Claim C5. When the model loads and the recogniser answers for every unit with a result
  whose \<open>text\<close> field is \<open>raw p\<close>, the run of \<open>transcribe_chunks\<close> does not abort, and its
  transcript is the trimmed join of what the units contribute, taken in order with their
  original 1-based positions: a unit whose trimmed text is empty contributes nothing and
  does not shift the numbers of the later units. The transcript contains, for every
  unit \<open>k\<close> (counted from 0) with a non-empty text that fails the heuristic, the marker
  with the position \<open>k + 1\<close> followed by the whole text, and for every unit with a text
  that passes, the boundary line with the position \<open>k + 1\<close> and the name of its file,
  followed by the whole text.
\<close>

theorem transcribe_chunks_skips_and_flags:
  assumes "load_model w model_name (if mps_available w then lit ''mps'' else lit ''cpu'') = None"
    and "\<forall>t' p. p \<in> set chunks \<longrightarrow>
           (\<exists>result. transcribe w t' (path_str p) language = Inr result \<and>
                     map_of result (lit ''text'') = Some (raw p))"
  shows "fst (transcribe_chunks w chunks model_name language t) =
           Inr (strip (join [10]
             (List.map_filter (\<lambda>(i, p). unit_contribution i (path_name p) (strip (raw p)))
                (zip [1..<1 + length chunks] chunks)))) \<and>
         (k < length chunks \<and> strip (raw (chunks ! k)) \<noteq> [] \<and>
          \<not> looks_like_japanese (strip (raw (chunks ! k))) (3 / 10) \<longrightarrow>
            (\<exists>transcript. fst (transcribe_chunks w chunks model_name language t) = Inr transcript \<and>
               sublist (lit ''[? '' @
                        [38750, 26085, 26412, 35486, 12387, 12413, 12356, 12481, 12515, 12531, 12463] @
                        lit '' '' @ str_of_nat (k + 1) @ lit ''] '' @ strip (raw (chunks ! k)))
                 transcript)) \<and>
         (k < length chunks \<and> strip (raw (chunks ! k)) \<noteq> [] \<and>
          looks_like_japanese (strip (raw (chunks ! k))) (3 / 10) \<longrightarrow>
            (\<exists>transcript. fst (transcribe_chunks w chunks model_name language t) = Inr transcript \<and>
               sublist (lit ''----- [Chunk '' @ str_of_nat (k + 1) @ lit ''] '' @
                        path_name (chunks ! k) @ lit '' -----'' @ [10] @ strip (raw (chunks ! k)))
                 transcript))"
proof -
  let ?f = "\<lambda>(i, p). unit_contribution i (path_name p) (strip (raw p))"
  let ?entries = "List.map_filter ?f (zip [1..<1 + length chunks] chunks)"
  let ?t1 = "t @ [LoadModel model_name (if mps_available w then lit ''mps'' else lit ''cpu'')]"
  from transcribe_loop_contributions[OF assms(2), of 1 "[]" ?t1]
  obtain t2 where "transcribe_loop w language 1 chunks [] ?t1 = (Inr ?entries, t2)"
    by (cases "transcribe_loop w language 1 chunks [] ?t1") auto
  then have run: "fst (transcribe_chunks w chunks model_name language t) =
                  Inr (strip (join [10] ?entries))"
    using assms(1) by (simp add: transcribe_chunks_def Let_def LF_def)
  have line: "sublist (unit_line (k + 1) (path_name (chunks ! k)) (strip (raw (chunks ! k))))
                (strip (join [10] ?entries))"
    if k: "k < length chunks" and ne: "strip (raw (chunks ! k)) \<noteq> []"
  proof -
    let ?line = "unit_line (k + 1) (path_name (chunks ! k)) (strip (raw (chunks ! k)))"
    have "?f (k + 1, chunks ! k) = Some ([LF] @ ?line @ [LF])"
      using ne by (simp add: unit_contribution_def LF_def)
    with zip_positions_member[OF k] have mem: "[LF] @ ?line @ [LF] \<in> set ?entries"
      by (rule map_filter_member)
    have "\<not> is_space (last (strip (raw (chunks ! k))))"
      using strip_edges[of "raw (chunks ! k)"] ne by simp
    from unit_line_edges[OF ne this, of "k + 1" "path_name (chunks ! k)"]
    have "sublist ?line (strip (join [LF] ?entries))"
      using entry_in_transcript[OF mem] by simp
    then show ?thesis by (simp add: LF_def)
  qed
  show ?thesis
  proof (intro conjI impI)
    show "fst (transcribe_chunks w chunks model_name language t) = Inr (strip (join [10] ?entries))"
      by (rule run)
  next
    assume a: "k < length chunks \<and> strip (raw (chunks ! k)) \<noteq> [] \<and>
          \<not> looks_like_japanese (strip (raw (chunks ! k))) (3 / 10)"
    then have k: "k < length chunks" and ne: "strip (raw (chunks ! k)) \<noteq> []"
      and nj: "\<not> looks_like_japanese (strip (raw (chunks ! k))) (3 / 10)" by simp_all
    have ul: "unit_line (k + 1) (path_name (chunks ! k)) (strip (raw (chunks ! k))) =
              lit ''[? '' @
              [38750, 26085, 26412, 35486, 12387, 12413, 12356, 12481, 12515, 12531, 12463] @
              lit '' '' @ str_of_nat (k + 1) @ lit ''] '' @ strip (raw (chunks ! k))"
      unfolding unit_line_def using nj by (simp only: if_False)
    from line[OF k ne] have "sublist (lit ''[? '' @
              [38750, 26085, 26412, 35486, 12387, 12413, 12356, 12481, 12515, 12531, 12463] @
              lit '' '' @ str_of_nat (k + 1) @ lit ''] '' @ strip (raw (chunks ! k)))
            (strip (join [10] ?entries))"
      unfolding ul .
    with run show "\<exists>transcript. fst (transcribe_chunks w chunks model_name language t) = Inr transcript \<and>
               sublist (lit ''[? '' @
                        [38750, 26085, 26412, 35486, 12387, 12413, 12356, 12481, 12515, 12531, 12463] @
                        lit '' '' @ str_of_nat (k + 1) @ lit ''] '' @ strip (raw (chunks ! k)))
                 transcript"
      by blast
  next
    assume a: "k < length chunks \<and> strip (raw (chunks ! k)) \<noteq> [] \<and>
          looks_like_japanese (strip (raw (chunks ! k))) (3 / 10)"
    then have k: "k < length chunks" and ne: "strip (raw (chunks ! k)) \<noteq> []"
      and jp: "looks_like_japanese (strip (raw (chunks ! k))) (3 / 10)" by simp_all
    have ul: "unit_line (k + 1) (path_name (chunks ! k)) (strip (raw (chunks ! k))) =
              lit ''----- [Chunk '' @ str_of_nat (k + 1) @ lit ''] '' @
              path_name (chunks ! k) @ lit '' -----'' @ [10] @ strip (raw (chunks ! k))"
      unfolding unit_line_def using jp by (simp only: if_True)
    from line[OF k ne] have "sublist (lit ''----- [Chunk '' @ str_of_nat (k + 1) @ lit ''] '' @
              path_name (chunks ! k) @ lit '' -----'' @ [10] @ strip (raw (chunks ! k)))
            (strip (join [10] ?entries))"
      unfolding ul .
    with run show "\<exists>transcript. fst (transcribe_chunks w chunks model_name language t) = Inr transcript \<and>
               sublist (lit ''----- [Chunk '' @ str_of_nat (k + 1) @ lit ''] '' @
                        path_name (chunks ! k) @ lit '' -----'' @ [10] @ strip (raw (chunks ! k)))
                 transcript"
      by blast
  qed
qed

text \<open>
  Three units: the first is recognised as blanks and is skipped, the second as \<open>hello\<close>
  and is flagged with its position 2, and the third as two hiragana and stands behind
  the boundary line with its position 3.
\<close>

theorem transcribe_chunks_skips_and_flags_witness:
  "fst (transcribe_chunks
          (stub_world [] (\<lambda>url. Inr (ok_response [])) 0 []
             (\<lambda>p. if p = lit ''c0.m4a'' then Inr [(lit ''text'', lit ''  '')]
                  else if p = lit ''c1.m4a'' then Inr [(lit ''text'', lit ''hello '')]
                  else Inr [(lit ''text'', [12354, 12356])]))
          [[lit ''c0.m4a''], [lit ''c1.m4a''], [lit ''c2.m4a'']] (lit ''large'') (lit ''ja'') []) =
   Inr (lit ''[? '' @
        [38750, 26085, 26412, 35486, 12387, 12413, 12356, 12481, 12515, 12531, 12463] @
        lit '' 2] hello'' @ [10, 10, 10] @
        lit ''----- [Chunk 3] c2.m4a -----'' @ [10] @ [12354, 12356])"
proof -
  let ?w = "stub_world [] (\<lambda>url. Inr (ok_response [])) 0 []
             (\<lambda>p. if p = lit ''c0.m4a'' then Inr [(lit ''text'', lit ''  '')]
                  else if p = lit ''c1.m4a'' then Inr [(lit ''text'', lit ''hello '')]
                  else Inr [(lit ''text'', [12354, 12356])])"
  let ?raw = "\<lambda>p. if p = [lit ''c0.m4a''] then lit ''  ''
                 else if p = [lit ''c1.m4a''] then lit ''hello '' else [12354, 12356]"
  let ?chunks = "[[lit ''c0.m4a''], [lit ''c1.m4a''], [lit ''c2.m4a'']]"
  have a: "load_model ?w (lit ''large'') (if mps_available ?w then lit ''mps'' else lit ''cpu'') = None"
    by (simp add: stub_world_def)
  have b: "\<forall>t' p. p \<in> set ?chunks \<longrightarrow>
             (\<exists>result. transcribe ?w t' (path_str p) (lit ''ja'') = Inr result \<and>
                       map_of result (lit ''text'') = Some (?raw p))"
    by (simp add: stub_world_def path_str_def lit_def)
  have s0: "strip (lit ''  '') = []"
    by (simp add: strip_def lit_def is_space_def)
  have s1: "strip (lit ''hello '') = lit ''hello''"
    by (simp add: strip_def lit_def is_space_def)
  have s2: "strip [12354, 12356] = [12354, 12356]"
    by (simp add: strip_def is_space_def)
  have j1: "\<not> looks_like_japanese (lit ''hello'') (3 / 10)"
    by (simp add: looks_like_japanese_def is_jp_char_def lit_def)
  have j2: "looks_like_japanese [12354, 12356] (3 / 10)"
    by (simp add: looks_like_japanese_def is_jp_char_def)
  have d2: "str_of_nat 2 = lit ''2''" by (subst str_of_nat.simps) (simp add: lit_def)
  have d3: "str_of_nat 3 = lit ''3''" by (subst str_of_nat.simps) (simp add: lit_def)
  have z: "zip [1..<1 + length ?chunks] ?chunks =
           [(1, [lit ''c0.m4a'']), (2, [lit ''c1.m4a'']), (3, [lit ''c2.m4a''])]"
    by (simp add: upt_conv_Cons)
  have ne: "[lit ''c1.m4a''] \<noteq> [lit ''c0.m4a'']" "[lit ''c2.m4a''] \<noteq> [lit ''c0.m4a'']"
    "[lit ''c2.m4a''] \<noteq> [lit ''c1.m4a'']" "lit ''hello'' \<noteq> []"
    by (simp_all add: lit_def)
  have u1: "unit_contribution i name [] = None" for i name
    by (simp add: unit_contribution_def)
  have u2: "unit_contribution 2 (path_name [lit ''c1.m4a'']) (lit ''hello'') =
            Some ([10] @ lit ''[? '' @
              [38750, 26085, 26412, 35486, 12387, 12413, 12356, 12481, 12515, 12531, 12463] @
              lit '' 2] hello'' @ [10])"
    using ne(4) j1 by (simp add: unit_contribution_def unit_line_def d2) (simp add: lit_def)
  have u3: "unit_contribution 3 (path_name [lit ''c2.m4a'']) [12354, 12356] =
            Some ([10] @ lit ''----- [Chunk 3] c2.m4a -----'' @ [10] @ [12354, 12356] @ [10])"
    using j2 by (simp add: unit_contribution_def unit_line_def d3 path_name_def) (simp add: lit_def)
  have m: "List.map_filter (\<lambda>(i, p). unit_contribution i (path_name p) (strip (?raw p)))
             [(1, [lit ''c0.m4a'']), (2, [lit ''c1.m4a'']), (3, [lit ''c2.m4a''])] =
           [[10] @ lit ''[? '' @
              [38750, 26085, 26412, 35486, 12387, 12413, 12356, 12481, 12515, 12531, 12463] @
              lit '' 2] hello'' @ [10],
            [10] @ lit ''----- [Chunk 3] c2.m4a -----'' @ [10] @ [12354, 12356] @ [10]]"
    using ne(1,2,3) by (simp add: List.map_filter_def s0 s1 s2 u1 u2 u3)
  have st: "strip (join [10]
           [[10] @ lit ''[? '' @
              [38750, 26085, 26412, 35486, 12387, 12413, 12356, 12481, 12515, 12531, 12463] @
              lit '' 2] hello'' @ [10],
            [10] @ lit ''----- [Chunk 3] c2.m4a -----'' @ [10] @ [12354, 12356] @ [10]]) =
        lit ''[? '' @
        [38750, 26085, 26412, 35486, 12387, 12413, 12356, 12481, 12515, 12531, 12463] @
        lit '' 2] hello'' @ [10, 10, 10] @
        lit ''----- [Chunk 3] c2.m4a -----'' @ [10] @ [12354, 12356]"
    by (simp add: strip_def lit_def is_space_def)
  from conjunct1[OF transcribe_chunks_skips_and_flags[OF a b, of "[]"]] show ?thesis
    unfolding z m st .
qed

section \<open>The order of the audio segments\<close>

lemma str_of_nat_1digit: "n < 10 \<Longrightarrow> str_of_nat n = [48 + n]"
  by (subst str_of_nat.simps) simp

lemma str_of_nat_2digits:
  "10 \<le> n \<Longrightarrow> n < 100 \<Longrightarrow> str_of_nat n = [48 + n div 10, 48 + n mod 10]"
  by (subst str_of_nat.simps) (simp add: str_of_nat_1digit)

lemma str_of_nat_3digits:
  "100 \<le> n \<Longrightarrow> n < 1000 \<Longrightarrow>
   str_of_nat n = [48 + n div 100, 48 + n div 10 mod 10, 48 + n mod 10]"
  by (subst str_of_nat.simps) (simp add: str_of_nat_2digits div_mult2_eq[symmetric])

lemma zero_pad3_digits:
  assumes "n < 1000"
  shows "zero_pad3 n = [48 + n div 100, 48 + n div 10 mod 10, 48 + n mod 10]"
proof -
  consider "n < 10" | "10 \<le> n" "n < 100" | "100 \<le> n" using assms by linarith
  then show ?thesis
  proof cases
    case 1
    then show ?thesis by (simp add: zero_pad3_def str_of_nat_1digit numeral_3_eq_3)
  next
    case 2
    then have "n div 100 = 0" by simp
    with 2 show ?thesis by (simp add: zero_pad3_def str_of_nat_2digits)
  next
    case 3
    with assms show ?thesis by (simp add: zero_pad3_def str_of_nat_3digits)
  qed
qed

lemma decimal_split:
  fixes i :: nat
  shows "i = 100 * (i div 100) + 10 * (i div 10 mod 10) + i mod 10"
proof -
  have a: "i = 10 * (i div 10) + i mod 10" by simp
  have b: "i div 10 = 10 * (i div 10 div 10) + i div 10 mod 10" by simp
  have c: "i div 10 div 10 = i div 100" by (simp add: div_mult2_eq[symmetric])
  from a b c show ?thesis by linarith
qed

lemma digits_lex:
  fixes i j :: nat
  assumes "i < j"
  shows "i div 100 < j div 100 \<or>
         (i div 100 = j div 100 \<and>
          (i div 10 mod 10 < j div 10 mod 10 \<or>
           (i div 10 mod 10 = j div 10 mod 10 \<and> i mod 10 < j mod 10)))"
proof -
  have bi: "i div 10 mod 10 < 10" "i mod 10 < 10" by simp_all
  have bj: "j div 10 mod 10 < 10" "j mod 10 < 10" by simp_all
  from decimal_split[of i] decimal_split[of j] assms bi bj show ?thesis by linarith
qed

lemma zero_pad3_less:
  assumes "i < j" and "j < 1000"
  shows "zero_pad3 i @ s < zero_pad3 j @ s"
proof -
  have i: "i < 1000" using assms by simp
  show ?thesis
    using digits_lex[OF assms(1)]
    by (auto simp: zero_pad3_digits[OF i] zero_pad3_digits[OF assms(2)])
qed

lemma append_less_same: "(p @ a < p @ b) = (a < (b :: ('a::linorder) list))"
  by (induction p) simp_all

lemma segment_name_less:
  assumes "i < j" and "j < 1000"
  shows "segment_name i < segment_name j"
  unfolding segment_name_def append_less_same
  by (rule zero_pad3_less[OF assms])

lemma segment_path_less:
  assumes "i < j" and "j < 1000"
  shows "dir @ [segment_name i] < dir @ [segment_name j]"
  unfolding append_less_same using segment_name_less[OF assms] by simp

lemma segment_paths_sorted:
  assumes "n \<le> 1000"
  shows "sorted (map (\<lambda>i. dir @ [segment_name i]) [0..<n])"
proof -
  have "sorted_wrt (<) [0..<n]" by simp
  then have "sorted_wrt (\<lambda>i j. dir @ [segment_name i] \<le> dir @ [segment_name j]) [0..<n]"
  proof (rule sorted_wrt_mono_rel[rotated])
    fix i j
    assume "i \<in> set [0..<n]" "j \<in> set [0..<n]" "i < j"
    with assms have "i < j" "j < 1000" by simp_all
    from segment_path_less[OF this] show "dir @ [segment_name i] \<le> dir @ [segment_name j]"
      by (rule less_imp_le)
  qed
  then show ?thesis by (simp add: sorted_map)
qed

lemma segment_name_matches: "matches_chunk_pattern (segment_name i)"
  by (simp add: matches_chunk_pattern_def segment_name_def lit_def suffix_def)

text \<open>
  Claim C8. When the demuxer exits with status 0 and has left \<open>n\<close> segments in the chunk
  directory, \<open>n\<close> at least 1 and a supported chunk count, then whatever the order in which
  the directory lists them, \<open>split_audio\<close> returns them sorted by path, and that order
  is the ascending order of their indices \<open>0, 1, \<dots>, n - 1\<close>.
\<close>

theorem split_audio_numeric_order:
  assumes "run_process w (ffmpeg_cmd input_path chunk_seconds) = 0"
    and "mset (listdir w (chunk_dir_of input_path)) = mset (map segment_name [0..<n])"
    and "0 < n"
    and "supported_chunk_count n"
  shows "fst (split_audio w input_path chunk_seconds t) =
         Inr (map (\<lambda>i. chunk_dir_of input_path @ [segment_name i]) [0..<n])"
proof -
  let ?dir = "chunk_dir_of input_path"
  let ?names = "listdir w ?dir"
  let ?sorted = "map (\<lambda>i. ?dir @ [segment_name i]) [0..<n]"
  have "set ?names = set (map segment_name [0..<n])"
    using assms(2) by (rule mset_eq_setD)
  then have "\<forall>name\<in>set ?names. matches_chunk_pattern name"
    by (auto simp: segment_name_matches)
  then have keep: "filter matches_chunk_pattern ?names = ?names" by simp
  have "mset (glob_chunks w ?dir) = image_mset (\<lambda>name. ?dir @ [name]) (mset ?names)"
    by (simp add: glob_chunks_def keep)
  also have "\<dots> = mset ?sorted"
    unfolding assms(2) by (simp add: image_mset.compositionality comp_def)
  finally have perm: "mset ?sorted = mset (glob_chunks w ?dir)" by simp
  have "sorted ?sorted"
    using assms(4) by (intro segment_paths_sorted) (simp add: supported_chunk_count_def)
  with perm have s: "sort (glob_chunks w ?dir) = ?sorted"
    by (rule properties_for_sort)
  have ne: "?sorted \<noteq> []" using assms(3) by simp
  show ?thesis
    using assms(1) ne by (simp add: split_audio_def Let_def s)
qed

theorem split_audio_numeric_order_witness:
  "fst (split_audio
          (stub_world [] (\<lambda>url. Inr (ok_response [])) 0
             [segment_name 2, segment_name 0, segment_name 1] (\<lambda>p. Inr []))
          [lit ''lecture.m4a''] 600 []) =
   Inr [chunk_dir_of [lit ''lecture.m4a''] @ [segment_name 0],
        chunk_dir_of [lit ''lecture.m4a''] @ [segment_name 1],
        chunk_dir_of [lit ''lecture.m4a''] @ [segment_name 2]]"
proof -
  let ?w = "stub_world [] (\<lambda>url. Inr (ok_response [])) 0
             [segment_name 2, segment_name 0, segment_name 1] (\<lambda>p. Inr [])"
  have u: "[0..<3] = [0, 1, 2::nat]" by (simp add: upt_conv_Cons)
  have a: "run_process ?w (ffmpeg_cmd [lit ''lecture.m4a''] 600) = 0"
    by (simp add: stub_world_def)
  have b: "mset (listdir ?w (chunk_dir_of [lit ''lecture.m4a''])) = mset (map segment_name [0..<3])"
    unfolding u by (simp add: stub_world_def)
  have c: "(0::nat) < 3" by simp
  have d: "supported_chunk_count 3" by (simp add: supported_chunk_count_def)
  from split_audio_numeric_order[OF a b c d, of "[]"] show ?thesis
    unfolding u by simp
qed

text \<open>
  Three digits are where the guarantee ends: the name of segment 1000 sorts before the
  name of segment 101.
\<close>

lemma segment_order_beyond_three_digits: "segment_name 1000 < segment_name 101"
proof -
  have "str_of_nat 1000 = str_of_nat 100 @ [48]"
    by (subst str_of_nat.simps) simp
  then have a: "zero_pad3 1000 = [49, 48, 48, 48]"
    by (simp add: zero_pad3_def str_of_nat_3digits)
  have b: "zero_pad3 101 = [49, 48, 49]" by (simp add: zero_pad3_digits)
  show ?thesis by (simp add: segment_name_def a b lit_def)
qed

section \<open>The output is written last\<close>









































end
